theory Spec2Isabelle
  imports Complex_Main
begin

section \<open>Retry engine (utils/retry.ts)\<close>

text \<open>
  JavaScript numbers are modelled without rounding: delays and multipliers are rationals
  (every finite double is one), attempt indices and \<open>maxAttempts\<close> are natural numbers,
  as the data model has them (integers from 0 on).
\<close>

datatype ErrorCategory = NETWORK | API | WEBSOCKET | VALIDATION | AUTHENTICATION | UNKNOWN









section \<open>Error classifier (utils/error-handler.ts)\<close>

record AppError =
  message :: string
  code :: string
  category :: ErrorCategory
  statusCode :: "int option"
  details :: "string option"
  timestamp :: string

text \<open>\<open>String.prototype.includes\<close>: the search string occurs as a contiguous substring.\<close>

fun str_includes :: "string \<Rightarrow> string \<Rightarrow> bool" where
  "str_includes [] search = (search = [])"
| "str_includes (c # cs) search =
     (take (length search) (c # cs) = search \<or> str_includes cs search)"

text \<open>
  \<open>error.statusCode && error.statusCode >= 500\<close>: the optional status code has to be
  present and truthy (non-zero) before it is compared.
\<close>

definition isRetryableError :: "AppError \<Rightarrow> bool" where
  "isRetryableError error =
     (if category error = NETWORK then True
      else if category error = WEBSOCKET then True
      else if (case statusCode error of Some n \<Rightarrow> n \<noteq> 0 \<and> n \<ge> 500 | None \<Rightarrow> False)
        then True
      else if str_includes (code error) ''TIMEOUT'' then True
      else if code error = ''RATE_LIMIT'' then False
      else if (case statusCode error of
                 Some n \<Rightarrow> n \<noteq> 0 \<and> n \<ge> 400 \<and> n < 500 | None \<Rightarrow> False)
        then False
      else if category error = AUTHENTICATION then False
      else if category error = VALIDATION then False
      else False)"

section \<open>Token store (services/auth-service)\<close>

definition ACCESS_TOKEN :: string where "ACCESS_TOKEN = ''auth_access_token''"
definition REFRESH_TOKEN :: string where "REFRESH_TOKEN = ''auth_refresh_token''"
definition EXPIRES_IN :: string where "EXPIRES_IN = ''auth_expires_in''"

text \<open>
  The values \<open>JSON.parse\<close> can return. An object is its list of properties, looked up
  with \<open>map_of\<close>.
\<close>

datatype json =
  JNull | JBool bool | JNum rat | JStr string | JArr "json list" | JObj "(string \<times> json) list"

text \<open>
  The built-ins of the JavaScript platform that the token store calls are parameters of
  the model: \<open>atob\<close>, \<open>decodeURIComponent\<close> and \<open>JSON.parse\<close> return \<open>None\<close> where
  they throw, and \<open>le_coerced v y\<close> is the result of \<open>v <= y\<close> for a value \<open>v\<close> that is
  not a number (the comparison after the platform's coercion of \<open>v\<close>).
\<close>

record platform =
  atob :: "string \<Rightarrow> string option"
  decodeURIComponent :: "string \<Rightarrow> string option"
  JSON_parse :: "string \<Rightarrow> json option"
  le_coerced :: "json \<Rightarrow> rat \<Rightarrow> bool"

definition hex_digit :: "nat \<Rightarrow> char" where
  "hex_digit d = ''0123456789abcdef'' ! d"

text \<open>\<open>'%' + ('00' + c.charCodeAt(0).toString(16)).slice(-2)\<close> for a character code below 256.\<close>

definition percent_byte :: "char \<Rightarrow> string" where
  "percent_byte c = [CHR ''%'', hex_digit (of_char c div 16), hex_digit (of_char c mod 16)]"

definition base64UrlDecode :: "platform \<Rightarrow> string \<Rightarrow> string option" where
  "base64UrlDecode p str =
     (let base64 = map (\<lambda>c. if c = CHR ''_'' then CHR ''/'' else c)
                     (map (\<lambda>c. if c = CHR ''-'' then CHR ''+'' else c) str);
          padding = length base64 mod 4;
          base64 = (if padding \<noteq> 0 then base64 @ replicate (4 - padding) CHR ''='' else base64)
      in case atob p base64 of
           None \<Rightarrow> None
         | Some decoded \<Rightarrow> decodeURIComponent p (concat (map percent_byte decoded)))"

text \<open>\<open>token.split('.')\<close>.\<close>

fun split_dot :: "string \<Rightarrow> string list" where
  "split_dot [] = [[]]"
| "split_dot (c # cs) =
     (if c = CHR ''.'' then [] # split_dot cs
      else (case split_dot cs of part # parts \<Rightarrow> (c # part) # parts | [] \<Rightarrow> [[c]]))"

text \<open>
  \<open>decodeToken\<close> returns the payload, or \<open>None\<close> for \<open>null\<close>: the token has not three
  parts, or one of the decoding steps threw and the \<open>catch\<close> returned \<open>null\<close>.
\<close>

definition decodeToken :: "platform \<Rightarrow> string \<Rightarrow> json option" where
  "decodeToken p token =
     (let parts = split_dot token in
      if length parts \<noteq> 3 then None
      else (let payload = parts ! 1 in
            case base64UrlDecode p payload of
              None \<Rightarrow> None
            | Some decoded \<Rightarrow> JSON_parse p decoded))"

fun truthy :: "json \<Rightarrow> bool" where
  "truthy JNull = False"
| "truthy (JBool b) = b"
| "truthy (JNum x) = (x \<noteq> 0)"
| "truthy (JStr s) = (s \<noteq> [])"
| "truthy (JArr xs) = True"
| "truthy (JObj kvs) = True"

text \<open>\<open>payload.exp\<close>: the property of an object, \<open>None\<close> (undefined) on any other value.\<close>

fun payload_exp :: "json \<Rightarrow> json option" where
  "payload_exp (JObj kvs) = map_of kvs ''exp''"
| "payload_exp v = None"

fun js_le :: "platform \<Rightarrow> json \<Rightarrow> rat \<Rightarrow> bool" where
  "js_le p (JNum x) y = (x \<le> y)"
| "js_le p v y = le_coerced p v y"

text \<open>
  \<open>isTokenExpired\<close>, with \<open>currentTime = Math.floor(Date.now() / 1000)\<close> as an argument.
\<close>

definition isTokenExpired :: "platform \<Rightarrow> int \<Rightarrow> string \<Rightarrow> bool" where
  "isTokenExpired p currentTime token =
     (case decodeToken p token of
        None \<Rightarrow> True
      | Some payload \<Rightarrow>
          if \<not> truthy payload then True
          else (case payload_exp payload of
                  None \<Rightarrow> True
                | Some ex \<Rightarrow>
                    if \<not> truthy ex then True
                    else js_le p ex (of_int currentTime + 30)))"

text \<open>
  The two browser storages. \<open>getItem\<close> returns \<open>None\<close> for \<open>null\<close>; \<open>setItem\<close> is taken
  to succeed.
\<close>

type_synonym Storage = "string \<Rightarrow> string option"

record TokenStorage =
  localStorage :: Storage
  sessionStorage :: Storage

datatype scope = Local | Session

fun getItem :: "scope \<Rightarrow> string \<Rightarrow> TokenStorage \<Rightarrow> string option" where
  "getItem Local k s = localStorage s k"
| "getItem Session k s = sessionStorage s k"

fun setItem :: "scope \<Rightarrow> string \<Rightarrow> string \<Rightarrow> TokenStorage \<Rightarrow> TokenStorage" where
  "setItem Local k v s = s\<lparr>localStorage := (localStorage s)(k \<mapsto> v)\<rparr>"
| "setItem Session k v s = s\<lparr>sessionStorage := (sessionStorage s)(k \<mapsto> v)\<rparr>"

fun removeItem :: "scope \<Rightarrow> string \<Rightarrow> TokenStorage \<Rightarrow> TokenStorage" where
  "removeItem Local k s = s\<lparr>localStorage := (localStorage s)(k := None)\<rparr>"
| "removeItem Session k s = s\<lparr>sessionStorage := (sessionStorage s)(k := None)\<rparr>"

text \<open>\<open>if (localStorage.getItem(ACCESS_TOKEN))\<close>: the item is present and not the empty string.\<close>

definition getStorage :: "TokenStorage \<Rightarrow> scope" where
  "getStorage s =
     (case getItem Local ACCESS_TOKEN s of
        Some v \<Rightarrow> if v \<noteq> [] then Local else Session
      | None \<Rightarrow> Session)"

record AuthTokens =
  accessToken :: string
  refreshToken :: string
  expiresIn :: nat

fun decimal :: "nat \<Rightarrow> string" where
  "decimal n = (if n < 10 then [hex_digit n] else decimal (n div 10) @ [hex_digit (n mod 10)])"

declare decimal.simps [simp del]

definition storeTokens :: "AuthTokens \<Rightarrow> bool \<Rightarrow> TokenStorage \<Rightarrow> TokenStorage" where
  "storeTokens tokens rememberMe s =
     (let storage = (if rememberMe then Local else Session) in
      setItem storage EXPIRES_IN (decimal (expiresIn tokens))
        (setItem storage REFRESH_TOKEN (refreshToken tokens)
          (setItem storage ACCESS_TOKEN (accessToken tokens) s)))"

definition logout :: "TokenStorage \<Rightarrow> TokenStorage" where
  "logout s =
     removeItem Session EXPIRES_IN
       (removeItem Session REFRESH_TOKEN
         (removeItem Session ACCESS_TOKEN
           (removeItem Local EXPIRES_IN
             (removeItem Local REFRESH_TOKEN
               (removeItem Local ACCESS_TOKEN s)))))"

definition getAccessToken :: "TokenStorage \<Rightarrow> string option" where
  "getAccessToken s = getItem (getStorage s) ACCESS_TOKEN s"

definition getRefreshToken :: "TokenStorage \<Rightarrow> string option" where
  "getRefreshToken s = getItem (getStorage s) REFRESH_TOKEN s"

text \<open>
  A platform fixture for concrete runs: it decodes the payload \<open>{"exp":100}\<close> as a
  browser does and throws on every other input.
\<close>

definition fixture_platform :: platform where
  "fixture_platform =
     \<lparr>atob = (\<lambda>s. if s = ''eyJleHAiOjEwMH0='' then Some ''{\"exp\":100}'' else None),
      decodeURIComponent =
        (\<lambda>s. if s = ''%7b%22%65%78%70%22%3a%31%30%30%7d'' then Some ''{\"exp\":100}'' else None),
      JSON_parse = (\<lambda>s. if s = ''{\"exp\":100}'' then Some (JObj [(''exp'', JNum 100)]) else None),
      le_coerced = (\<lambda>v y. False)\<rparr>"

section \<open>HTTP request pipeline (services/api-client.ts)\<close>

text \<open>
  The response-error interceptor runs on the single-threaded event loop: it executes
  without interruption up to \<open>await refreshAccessToken()\<close>, and its continuation
  (the \<open>try\<close> body after the await, or the \<open>catch\<close> block, then \<open>finally\<close>) executes
  without interruption once the refresh has settled. The model has one step for each of
  these, on a state that holds the module variables \<open>isRefreshing\<close> and
  \<open>requestQueue\<close> and records what the environment observes: the calls of
  \<open>refreshAccessToken\<close>, the settlements of the promises handed to callers, the requests
  re-issued through the instance, the calls of \<open>logout\<close>, the token storage and
  \<open>window.location.href\<close>.
\<close>

record RequestConfig =
  requestUrl :: string
  authorization :: "string option"
  retried :: bool

record AxiosResponse =
  status :: int
  statusText :: string
  dataMessage :: "string option"
  dataCode :: "string option"

record AxiosError =
  errorConfig :: "RequestConfig option"
  response :: "AxiosResponse option"
  hasRequest :: bool
  errorMessage :: string

record FormattedError =
  fmtMessage :: string
  fmtCode :: string
  fmtStatus :: "int option"
  fmtStatusText :: "string option"
  fmtOriginalError :: "string option"

text \<open>\<open>a || b\<close> on an optional string: \<open>a\<close> unless it is undefined or empty.\<close>

definition or_else :: "string option \<Rightarrow> string \<Rightarrow> string" where
  "or_else a b = (case a of Some v \<Rightarrow> if v \<noteq> [] then v else b | None \<Rightarrow> b)"

definition formatError :: "AxiosError \<Rightarrow> FormattedError" where
  "formatError error =
     (case response error of
        Some r \<Rightarrow>
          \<lparr>fmtMessage = or_else (dataMessage r) (errorMessage error),
           fmtCode = or_else (dataCode r) ''API_ERROR'',
           fmtStatus = Some (status r), fmtStatusText = Some (statusText r),
           fmtOriginalError = None\<rparr>
      | None \<Rightarrow>
          if hasRequest error then
            \<lparr>fmtMessage = ''Network error. Please check your internet connection.'',
             fmtCode = ''NETWORK_ERROR'', fmtStatus = None, fmtStatusText = None,
             fmtOriginalError = Some (errorMessage error)\<rparr>
          else
            \<lparr>fmtMessage = or_else (Some (errorMessage error)) ''An unexpected error occurred'',
             fmtCode = ''UNKNOWN_ERROR'', fmtStatus = None, fmtStatusText = None,
             fmtOriginalError = None\<rparr>)"

text \<open>
  A promise handed to a caller is named by a number. It is settled by \<open>Resolved c\<close>,
  resolution with \<open>instance(c)\<close> (the re-issued request with configuration \<open>c\<close>), or
  rejected, with the error thrown by the refresh (an object of type \<open>'e\<close>, as
  \<open>refreshAccessToken\<close> throws \<open>Error\<close> objects) or with a formatted error.
\<close>

datatype 'e rejection = RefreshError 'e | Formatted FormattedError

datatype 'e settlement = Resolved RequestConfig | Rejected "'e rejection"

record QueuedRequest =
  qconfig :: RequestConfig
  qpromise :: nat

record 'e ApiState =
  isRefreshing :: bool
  requestQueue :: "QueuedRequest list"
  awaiting :: "(nat \<times> RequestConfig) list"
  refreshCalls :: nat
  settled :: "(nat \<times> 'e settlement) list"
  dispatched :: "RequestConfig list"
  nextPromise :: nat
  logoutCalls :: nat
  storage :: TokenStorage
  hasWindow :: bool
  location_href :: string

definition initialApiState :: "TokenStorage \<Rightarrow> bool \<Rightarrow> string \<Rightarrow> 'e ApiState" where
  "initialApiState st w href =
     \<lparr>isRefreshing = False, requestQueue = [], awaiting = [], refreshCalls = 0, settled = [],
      dispatched = [], nextPromise = 0, logoutCalls = 0, storage = st, hasWindow = w,
      location_href = href\<rparr>"

definition bearer :: "string \<Rightarrow> string" where
  "bearer token = ''Bearer '' @ token"

text \<open>The body of the \<open>forEach\<close> in \<open>processQueue\<close>, for one queued request.\<close>

definition processRequest ::
  "'e option \<Rightarrow> string option \<Rightarrow> QueuedRequest \<Rightarrow> 'e ApiState \<Rightarrow> 'e ApiState" where
  "processRequest error token request s =
     (case error of
        Some e \<Rightarrow> s\<lparr>settled := settled s @ [(qpromise request, Rejected (RefreshError e))]\<rparr>
      | None \<Rightarrow>
          (let c = (case token of
                      Some t \<Rightarrow>
                        if t \<noteq> [] then (qconfig request)\<lparr>authorization := Some (bearer t)\<rparr>
                        else qconfig request
                    | None \<Rightarrow> qconfig request)
           in s\<lparr>dispatched := dispatched s @ [c],
                settled := settled s @ [(qpromise request, Resolved c)]\<rparr>))"

definition processQueue :: "'e option \<Rightarrow> string option \<Rightarrow> 'e ApiState \<Rightarrow> 'e ApiState" where
  "processQueue error token s =
     (fold (processRequest error token) (requestQueue s) s)\<lparr>requestQueue := []\<rparr>"

text \<open>
  The interceptor up to its first suspension. The promise it returns is \<open>nextPromise s\<close>;
  it stays pending when the request is queued or the refresh is awaited.
\<close>

definition interceptResponseError :: "AxiosError \<Rightarrow> 'e ApiState \<Rightarrow> 'e ApiState" where
  "interceptResponseError error s =
     (let promise = nextPromise s;
          s = s\<lparr>nextPromise := promise + 1\<rparr>
      in case errorConfig error of
           Some originalRequest \<Rightarrow>
             if map_option status (response error) = Some 401 \<and> \<not> retried originalRequest
             then
               if isRefreshing s
               then s\<lparr>requestQueue := requestQueue s @
                        [\<lparr>qconfig = originalRequest, qpromise = promise\<rparr>]\<rparr>
               else s\<lparr>isRefreshing := True,
                      refreshCalls := refreshCalls s + 1,
                      awaiting := awaiting s @ [(promise, originalRequest\<lparr>retried := True\<rparr>)]\<rparr>
             else s\<lparr>settled := settled s @ [(promise, Rejected (Formatted (formatError error)))]\<rparr>
         | None \<Rightarrow>
             s\<lparr>settled := settled s @ [(promise, Rejected (Formatted (formatError error)))]\<rparr>)"

text \<open>The continuation of the interceptor invocation \<open>promise\<close> after the refresh resolved.\<close>

definition refreshResolved :: "nat \<Rightarrow> string \<Rightarrow> 'e ApiState \<Rightarrow> 'e ApiState" where
  "refreshResolved promise newAccessToken s =
     (case map_of (awaiting s) promise of
        None \<Rightarrow> s
      | Some originalRequest \<Rightarrow>
          (let s = s\<lparr>awaiting := filter (\<lambda>a. fst a \<noteq> promise) (awaiting s)\<rparr>;
               originalRequest = originalRequest\<lparr>authorization := Some (bearer newAccessToken)\<rparr>;
               s = processQueue None (Some newAccessToken) s;
               s = s\<lparr>dispatched := dispatched s @ [originalRequest],
                     settled := settled s @ [(promise, Resolved originalRequest)]\<rparr>
           in s\<lparr>isRefreshing := False\<rparr>))"

text \<open>The continuation after the refresh rejected with \<open>refreshError\<close>.\<close>

definition refreshRejected :: "nat \<Rightarrow> 'e \<Rightarrow> 'e ApiState \<Rightarrow> 'e ApiState" where
  "refreshRejected promise refreshError s =
     (case map_of (awaiting s) promise of
        None \<Rightarrow> s
      | Some originalRequest \<Rightarrow>
          (let s = s\<lparr>awaiting := filter (\<lambda>a. fst a \<noteq> promise) (awaiting s)\<rparr>;
               s = processQueue (Some refreshError) None s;
               s = s\<lparr>storage := logout (storage s), logoutCalls := logoutCalls s + 1\<rparr>;
               s = (if hasWindow s then s\<lparr>location_href := ''/login''\<rparr> else s);
               s = s\<lparr>settled := settled s @ [(promise, Rejected (RefreshError refreshError))]\<rparr>
           in s\<lparr>isRefreshing := False\<rparr>))"

datatype 'e apiEvent =
  ResponseError AxiosError
| RefreshResolved nat string
| RefreshRejected nat 'e

fun apiStep :: "'e apiEvent \<Rightarrow> 'e ApiState \<Rightarrow> 'e ApiState" where
  "apiStep (ResponseError error) s = interceptResponseError error s"
| "apiStep (RefreshResolved promise token) s = refreshResolved promise token s"
| "apiStep (RefreshRejected promise err) s = refreshRejected promise err s"

definition apiRun :: "'e apiEvent list \<Rightarrow> 'e ApiState \<Rightarrow> 'e ApiState" where
  "apiRun events s = fold apiStep events s"

text \<open>The error of a response with status 401 to the request with configuration \<open>c\<close>.\<close>

definition unauthorized :: "RequestConfig \<Rightarrow> AxiosError" where
  "unauthorized c =
     \<lparr>errorConfig = Some c,
      response = Some \<lparr>status = 401, statusText = ''Unauthorized'', dataMessage = None,
        dataCode = None\<rparr>,
      hasRequest = True,
      errorMessage = ''Request failed with status code 401''\<rparr>"

text \<open>The configuration with which \<open>processQueue\<close> re-issues a queued request.\<close>

definition replayConfig :: "string option \<Rightarrow> QueuedRequest \<Rightarrow> RequestConfig" where
  "replayConfig token request =
     (case token of
        Some t \<Rightarrow>
          if t \<noteq> [] then (qconfig request)\<lparr>authorization := Some (bearer t)\<rparr>
          else qconfig request
      | None \<Rightarrow> qconfig request)"

text \<open>
  The invariant of the pipeline: a continuation awaits the refresh exactly while
  \<open>isRefreshing\<close> is set, and it is the only one; the queue is empty while no refresh is
  in flight; the promises settled, queued and awaiting are pairwise different.
\<close>

definition promises :: "'e ApiState \<Rightarrow> nat list" where
  "promises s =
     map fst (settled s) @ map qpromise (requestQueue s) @ map fst (awaiting s)"

definition apiInv :: "'e ApiState \<Rightarrow> bool" where
  "apiInv s \<longleftrightarrow>
     (if isRefreshing s then length (awaiting s) = 1
      else awaiting s = [] \<and> requestQueue s = [])
     \<and> distinct (promises s) \<and> list_all (\<lambda>p. p < nextPromise s) (promises s)"

text \<open>Two requests and an empty storage, for concrete runs.\<close>

definition postsRequest :: RequestConfig where
  "postsRequest =
     \<lparr>requestUrl = ''/posts'', authorization = Some ''Bearer old'', retried = False\<rparr>"

definition usersRequest :: RequestConfig where
  "usersRequest =
     \<lparr>requestUrl = ''/users'', authorization = Some ''Bearer old'', retried = False\<rparr>"

definition emptyStorage :: TokenStorage where
  "emptyStorage = \<lparr>localStorage = Map.empty, sessionStorage = Map.empty\<rparr>"

section \<open>WebSocket connection manager (lib/websocket-manager.ts)\<close>

text \<open>
  The manager is a registry from URLs to instance objects. The handlers installed on a
  socket close over the instance they were created with, while the registry is keyed by
  URL, so instances live in a store (a list; an instance is named by its index) and the
  registry holds indices. Callbacks are named by numbers; calling one is recorded in
  \<open>delivered\<close> (data callbacks) or \<open>statusDelivered\<close> (status callbacks). Timers set with
  \<open>setTimeout\<close> are pending tasks with their delay. Each operation of the class, each
  socket event handler and each timer callback is one uninterrupted step. The socket's
  \<open>readyState\<close> is kept with the instance and is moved by the browser: to \<open>OPEN\<close> before
  the open event, to \<open>CLOSED\<close> before the close event, and to \<open>CLOSING\<close> by \<open>close()\<close>.
  \<open>JSON.parse\<close> on a frame is the parameter \<open>parse\<close> (\<open>None\<close> where it throws).
\<close>

datatype readyState = CONNECTING | OPEN | CLOSING | CLOSED

record 'd WebSocketInstance =
  readyState :: readyState
  url :: string
  subscribers :: "nat list"
  statusSubscribers :: "nat list"
  isConnected :: bool
  isConnecting :: bool
  wsError :: "string option"
  lastMessages :: "'d list"
  maxMessages :: nat

datatype timerTask = Replay nat nat | Reconnect string

record 'd WebSocketManager =
  connections :: "string \<Rightarrow> nat option"
  instances :: "'d WebSocketInstance list"
  timers :: "(nat \<times> timerTask) list"
  delivered :: "(nat \<times> 'd) list"
  statusDelivered :: "(nat \<times> bool \<times> bool \<times> string option) list"
  sent :: "(nat \<times> string) list"

definition emptyManager :: "'d WebSocketManager" where
  "emptyManager =
     \<lparr>connections = Map.empty, instances = [], timers = [], delivered = [],
      statusDelivered = [], sent = []\<rparr>"

text \<open>A JavaScript \<open>Set\<close> of callbacks, in insertion order.\<close>

definition set_add :: "nat \<Rightarrow> nat list \<Rightarrow> nat list" where
  "set_add cb cbs = (if cb \<in> set cbs then cbs else cbs @ [cb])"

definition set_delete :: "nat \<Rightarrow> nat list \<Rightarrow> nat list" where
  "set_delete cb cbs = removeAll cb cbs"

definition newInstance :: "string \<Rightarrow> 'd WebSocketInstance" where
  "newInstance u =
     \<lparr>readyState = CONNECTING, url = u, subscribers = [], statusSubscribers = [],
      isConnected = False, isConnecting = True, wsError = None, lastMessages = [],
      maxMessages = 100\<rparr>"

definition modify ::
  "nat \<Rightarrow> ('d WebSocketInstance \<Rightarrow> 'd WebSocketInstance) \<Rightarrow> 'd WebSocketManager \<Rightarrow>
     'd WebSocketManager" where
  "modify i f s = s\<lparr>instances := (instances s)[i := f (instances s ! i)]\<rparr>"

definition create :: "string \<Rightarrow> 'd WebSocketManager \<Rightarrow> nat \<times> 'd WebSocketManager" where
  "create u s =
     (let i = length (instances s)
      in (i, s\<lparr>instances := instances s @ [newInstance u],
               connections := (connections s)(u \<mapsto> i)\<rparr>))"

definition connect :: "string \<Rightarrow> 'd WebSocketManager \<Rightarrow> nat \<times> 'd WebSocketManager" where
  "connect u s =
     (case connections s u of
        Some i \<Rightarrow>
          if readyState (instances s ! i) = OPEN then (i, s)
          else if readyState (instances s ! i) = CONNECTING then (i, s)
          else create u (s\<lparr>connections := (connections s)(u := None)\<rparr>)
      | None \<Rightarrow> create u s)"

definition notifyStatusSubscribers :: "nat \<Rightarrow> 'd WebSocketManager \<Rightarrow> 'd WebSocketManager" where
  "notifyStatusSubscribers i s =
     (let inst = instances s ! i;
          st = (isConnected inst, isConnecting inst, wsError inst)
      in s\<lparr>statusDelivered := statusDelivered s @
             map (\<lambda>cb. (cb, st)) (statusSubscribers inst)\<rparr>)"

definition ws_onopen :: "nat \<Rightarrow> 'd WebSocketManager \<Rightarrow> 'd WebSocketManager" where
  "ws_onopen i s =
     (if i < length (instances s) then
        notifyStatusSubscribers i
          (modify i (\<lambda>inst. inst\<lparr>readyState := OPEN, isConnected := True,
             isConnecting := False, wsError := None\<rparr>) s)
      else s)"

text \<open>\<open>lastMessages.push(data)\<close>, then \<open>shift()\<close> when the length exceeds \<open>maxMessages\<close>.\<close>

definition pushMessage :: "nat \<Rightarrow> 'd \<Rightarrow> 'd list \<Rightarrow> 'd list" where
  "pushMessage limit d history =
     (let history = history @ [d]
      in if length history > limit then tl history else history)"

definition ws_onmessage ::
  "(string \<Rightarrow> 'd option) \<Rightarrow> nat \<Rightarrow> string \<Rightarrow> 'd WebSocketManager \<Rightarrow> 'd WebSocketManager" where
  "ws_onmessage parse i raw s =
     (if i < length (instances s) then
        (case parse raw of
           None \<Rightarrow> s
         | Some d \<Rightarrow>
             (let s = modify i (\<lambda>inst. inst\<lparr>lastMessages :=
                        pushMessage (maxMessages inst) d (lastMessages inst)\<rparr>) s
              in s\<lparr>delivered := delivered s @
                     map (\<lambda>cb. (cb, d)) (subscribers (instances s ! i))\<rparr>))
      else s)"

definition ws_onerror :: "nat \<Rightarrow> 'd WebSocketManager \<Rightarrow> 'd WebSocketManager" where
  "ws_onerror i s =
     (if i < length (instances s) then
        notifyStatusSubscribers i
          (modify i (\<lambda>inst. inst\<lparr>wsError := Some ''WebSocket connection error'',
             isConnecting := False\<rparr>) s)
      else s)"

definition ws_onclose :: "nat \<Rightarrow> bool \<Rightarrow> 'd WebSocketManager \<Rightarrow> 'd WebSocketManager" where
  "ws_onclose i wasClean s =
     (if i < length (instances s) then
        (let s = modify i (\<lambda>inst. inst\<lparr>readyState := CLOSED, isConnected := False,
                   isConnecting := False\<rparr>) s;
             s = notifyStatusSubscribers i s;
             u = url (instances s ! i);
             s = s\<lparr>connections := (connections s)(u := None)\<rparr>
         in if \<not> wasClean then s\<lparr>timers := timers s @ [(2000, Reconnect u)]\<rparr> else s)
      else s)"

text \<open>
  \<open>subscribe\<close> returns the instance it registered the callback with: the returned
  unsubscribe function is \<open>unsubscribe i cb\<close> for that instance.
\<close>

definition subscribe ::
  "string \<Rightarrow> nat \<Rightarrow> bool \<Rightarrow> 'd WebSocketManager \<Rightarrow> nat \<times> 'd WebSocketManager" where
  "subscribe u cb replayLast s =
     (let (i, s) = connect u s;
          s = modify i (\<lambda>inst. inst\<lparr>subscribers := set_add cb (subscribers inst)\<rparr>) s;
          s = (if replayLast \<and> length (lastMessages (instances s ! i)) > 0
               then s\<lparr>timers := timers s @ [(0, Replay i cb)]\<rparr> else s)
      in (i, s))"

definition unsubscribe :: "nat \<Rightarrow> nat \<Rightarrow> 'd WebSocketManager \<Rightarrow> 'd WebSocketManager" where
  "unsubscribe i cb s =
     (if i < length (instances s) then
        modify i (\<lambda>inst. inst\<lparr>subscribers := set_delete cb (subscribers inst)\<rparr>) s
      else s)"

definition subscribeToStatus ::
  "string \<Rightarrow> nat \<Rightarrow> 'd WebSocketManager \<Rightarrow> nat \<times> 'd WebSocketManager" where
  "subscribeToStatus u cb s =
     (let (i, s) = connect u s;
          s = modify i (\<lambda>inst. inst\<lparr>statusSubscribers :=
                set_add cb (statusSubscribers inst)\<rparr>) s;
          inst = instances s ! i
      in (i, s\<lparr>statusDelivered := statusDelivered s @
                 [(cb, isConnected inst, isConnecting inst, wsError inst)]\<rparr>))"

definition unsubscribeStatus :: "nat \<Rightarrow> nat \<Rightarrow> 'd WebSocketManager \<Rightarrow> 'd WebSocketManager" where
  "unsubscribeStatus i cb s =
     (if i < length (instances s) then
        modify i (\<lambda>inst. inst\<lparr>statusSubscribers :=
          set_delete cb (statusSubscribers inst)\<rparr>) s
      else s)"

text \<open>\<open>send\<close> with the text to transmit (a string, or the serialisation of the data).\<close>

definition send :: "string \<Rightarrow> string \<Rightarrow> 'd WebSocketManager \<Rightarrow> 'd WebSocketManager" where
  "send u msg s =
     (case connections s u of
        Some i \<Rightarrow>
          if readyState (instances s ! i) = OPEN then s\<lparr>sent := sent s @ [(i, msg)]\<rparr> else s
      | None \<Rightarrow> s)"

definition disconnect :: "string \<Rightarrow> 'd WebSocketManager \<Rightarrow> 'd WebSocketManager" where
  "disconnect u s =
     (case connections s u of
        Some i \<Rightarrow>
          (modify i (\<lambda>inst. inst\<lparr>readyState :=
              (if readyState inst = CLOSED then CLOSED else CLOSING)\<rparr>) s)
            \<lparr>connections := (connections s)(u := None)\<rparr>
      | None \<Rightarrow> s)"

text \<open>
  The \<open>k\<close>-th pending timer fires: the replay callback iterates over the
  \<open>lastMessages\<close> the instance has at that moment; the reconnect callback calls
  \<open>connect\<close>.
\<close>

definition runTask :: "timerTask \<Rightarrow> 'd WebSocketManager \<Rightarrow> 'd WebSocketManager" where
  "runTask task s =
     (case task of
        Replay i cb \<Rightarrow>
          s\<lparr>delivered := delivered s @ map (\<lambda>msg. (cb, msg)) (lastMessages (instances s ! i))\<rparr>
      | Reconnect u \<Rightarrow> snd (connect u s))"

definition fireTimer :: "nat \<Rightarrow> 'd WebSocketManager \<Rightarrow> 'd WebSocketManager" where
  "fireTimer k s =
     (if k < length (timers s) then
        runTask (snd (timers s ! k)) (s\<lparr>timers := take k (timers s) @ drop (Suc k) (timers s)\<rparr>)
      else s)"

datatype wsEvent =
  Connect string
| Subscribe string nat bool
| Unsubscribe nat nat
| SubscribeToStatus string nat
| UnsubscribeStatus nat nat
| Send string string
| Disconnect string
| OnOpen nat
| OnMessage nat string
| OnError nat
| OnClose nat bool
| FireTimer nat

fun wsStep :: "(string \<Rightarrow> 'd option) \<Rightarrow> wsEvent \<Rightarrow> 'd WebSocketManager \<Rightarrow> 'd WebSocketManager" where
  "wsStep parse (Connect u) s = snd (connect u s)"
| "wsStep parse (Subscribe u cb replayLast) s = snd (subscribe u cb replayLast s)"
| "wsStep parse (Unsubscribe i cb) s = unsubscribe i cb s"
| "wsStep parse (SubscribeToStatus u cb) s = snd (subscribeToStatus u cb s)"
| "wsStep parse (UnsubscribeStatus i cb) s = unsubscribeStatus i cb s"
| "wsStep parse (Send u msg) s = send u msg s"
| "wsStep parse (Disconnect u) s = disconnect u s"
| "wsStep parse (OnOpen i) s = ws_onopen i s"
| "wsStep parse (OnMessage i raw) s = ws_onmessage parse i raw s"
| "wsStep parse (OnError i) s = ws_onerror i s"
| "wsStep parse (OnClose i wasClean) s = ws_onclose i wasClean s"
| "wsStep parse (FireTimer k) s = fireTimer k s"

definition wsRun :: "(string \<Rightarrow> 'd option) \<Rightarrow> wsEvent list \<Rightarrow> 'd WebSocketManager \<Rightarrow> 'd WebSocketManager" where
  "wsRun parse events s = fold (wsStep parse) events s"


text \<open>
  The invariant of the manager: every instance has the limit 100, at most 100 buffered
  messages and no callback twice among its subscribers, and the registry names instances
  of the store.
\<close>

definition instOK :: "'d WebSocketInstance \<Rightarrow> bool" where
  "instOK inst \<longleftrightarrow>
     maxMessages inst = 100 \<and> length (lastMessages inst) \<le> 100 \<and> distinct (subscribers inst)"

definition wsInv :: "'d WebSocketManager \<Rightarrow> bool" where
  "wsInv s \<longleftrightarrow>
     list_all instOK (instances s)
     \<and> (\<forall>u i. connections s u = Some i \<longrightarrow> i < length (instances s))"

text \<open>The messages that arrive on the socket of instance \<open>i\<close> in a sequence of events.\<close>

definition arrived :: "(string \<Rightarrow> 'd option) \<Rightarrow> nat \<Rightarrow> wsEvent list \<Rightarrow> 'd list" where
  "arrived parse i events =
     List.map_filter
       (\<lambda>ev. case ev of OnMessage j raw \<Rightarrow> if j = i then parse raw else None | _ \<Rightarrow> None)
       events"



section \<open>Properties of the retry engine\<close>


lemma str_includes_iff: "str_includes s search \<longleftrightarrow> (\<exists>ys zs. s = ys @ search @ zs)"
proof (induction s)
  case Nil
  then show ?case by auto
next
  case (Cons c cs)
  have "take (length search) (c # cs) = search \<longleftrightarrow> (\<exists>zs. c # cs = search @ zs)"
    by (metis append_eq_conv_conj append_take_drop_id)
  moreover have "(\<exists>ys zs. c # cs = ys @ search @ zs) \<longleftrightarrow>
      (\<exists>zs. c # cs = search @ zs) \<or> (\<exists>ys zs. cs = ys @ search @ zs)"
  proof
    assume "\<exists>ys zs. c # cs = ys @ search @ zs"
    then obtain ys zs where e: "c # cs = ys @ search @ zs" by blast
    show "(\<exists>zs. c # cs = search @ zs) \<or> (\<exists>ys zs. cs = ys @ search @ zs)"
    proof (cases ys)
      case Nil
      with e show ?thesis by auto
    next
      case (Cons y ys')
      with e have "cs = ys' @ search @ zs" by simp
      then show ?thesis by blast
    qed
  next
    assume "(\<exists>zs. c # cs = search @ zs) \<or> (\<exists>ys zs. cs = ys @ search @ zs)"
    then show "\<exists>ys zs. c # cs = ys @ search @ zs"
    proof
      assume "\<exists>zs. c # cs = search @ zs"
      then obtain zs where "c # cs = [] @ search @ zs" by auto
      then show ?thesis by blast
    next
      assume "\<exists>ys zs. cs = ys @ search @ zs"
      then obtain ys zs where "c # cs = (c # ys) @ search @ zs" by auto
      then show ?thesis by blast
    qed
  qed
  ultimately show ?case using Cons.IH by simp
qed












section \<open>Properties of the error classifier\<close>

text \<open>
  C7 (as amended). \<open>isRetryableError\<close> is true exactly when the category is NETWORK or
  WEBSOCKET, or the status code is at least 500, or the code contains "TIMEOUT". So it is
  false for the rate-limit code, for a 4xx status code and for the AUTHENTICATION and
  VALIDATION categories whenever none of these three conditions holds, and false in every
  remaining case.
\<close>

theorem isRetryableError_classification:
  "(isRetryableError e \<longleftrightarrow>
      category e = NETWORK \<or> category e = WEBSOCKET
      \<or> (\<exists>n. statusCode e = Some n \<and> n \<ge> 500)
      \<or> str_includes (code e) ''TIMEOUT'')
   \<and> (code e = ''RATE_LIMIT'' \<and> category e \<noteq> NETWORK \<and> category e \<noteq> WEBSOCKET
        \<and> (\<forall>n. statusCode e = Some n \<longrightarrow> n < 500) \<longrightarrow> \<not> isRetryableError e)
   \<and> ((\<exists>n. statusCode e = Some n \<and> 400 \<le> n \<and> n < 500)
        \<and> category e \<noteq> NETWORK \<and> category e \<noteq> WEBSOCKET
        \<and> \<not> str_includes (code e) ''TIMEOUT'' \<longrightarrow> \<not> isRetryableError e)
   \<and> ((category e = AUTHENTICATION \<or> category e = VALIDATION)
        \<and> (\<forall>n. statusCode e = Some n \<longrightarrow> n < 500)
        \<and> \<not> str_includes (code e) ''TIMEOUT'' \<longrightarrow> \<not> isRetryableError e)"
  by (auto simp: isRetryableError_def split: option.splits)

theorem isRetryableError_classification_witness:
  "\<not> isRetryableError \<lparr>message = ''Too many requests. Please try again later.'',
       code = ''RATE_LIMIT'', category = API, statusCode = Some 429, details = None,
       timestamp = ''''\<rparr>
   \<and> \<not> isRetryableError \<lparr>message = ''Your session has expired. Please log in again.'',
       code = ''AUTH_ERROR'', category = AUTHENTICATION, statusCode = Some 401,
       details = None, timestamp = ''''\<rparr>
   \<and> isRetryableError \<lparr>message = ''Something went wrong on our end. Please try again.'',
       code = ''SERVER_ERROR'', category = API, statusCode = Some 503, details = None,
       timestamp = ''''\<rparr>"
  using isRetryableError_classification[of "\<lparr>message = ''Too many requests. Please try again later.'',
       code = ''RATE_LIMIT'', category = API, statusCode = Some 429, details = None,
       timestamp = ''''\<rparr>"]
    isRetryableError_classification[of "\<lparr>message = ''Your session has expired. Please log in again.'',
       code = ''AUTH_ERROR'', category = AUTHENTICATION, statusCode = Some 401,
       details = None, timestamp = ''''\<rparr>"]
    isRetryableError_classification[of "\<lparr>message = ''Something went wrong on our end. Please try again.'',
       code = ''SERVER_ERROR'', category = API, statusCode = Some 503, details = None,
       timestamp = ''''\<rparr>"]
  by simp

text \<open>
  C7 as stated fails: an error with the 4xx status code 408 whose code contains "TIMEOUT"
  is retryable.
\<close>

theorem isRetryableError_4xx_timeout:
  "isRetryableError \<lparr>message = ''Request Timeout'', code = ''REQUEST_TIMEOUT'',
      category = API, statusCode = Some 408, details = None, timestamp = ''''\<rparr>"
  by (simp add: isRetryableError_def)

section \<open>Properties of the token store\<close>

text \<open>
  C6. \<open>isTokenExpired\<close> is true when the token has not exactly three dot-separated parts,
  when decoding its second part throws (\<open>atob\<close> or \<open>decodeURIComponent\<close>), when
  \<open>JSON.parse\<close> throws, when the payload has no \<open>exp\<close>, and when \<open>exp\<close> is a number
  with \<open>exp \<le> now + 30\<close>. It is false for a three-part token whose payload decodes to a
  value with a numeric \<open>exp > now + 30\<close>, the clock \<open>now\<close> (seconds since the epoch) being
  non-negative.
\<close>

theorem isTokenExpired_spec:
  "(length (split_dot token) \<noteq> 3 \<longrightarrow> isTokenExpired p now token)
   \<and> (split_dot token = [header, payload, signature] \<longrightarrow>
        (base64UrlDecode p payload = None \<longrightarrow> isTokenExpired p now token)
      \<and> (base64UrlDecode p payload = Some decoded \<longrightarrow>
          (JSON_parse p decoded = None \<longrightarrow> isTokenExpired p now token)
        \<and> (JSON_parse p decoded = Some v \<longrightarrow>
            (payload_exp v = None \<longrightarrow> isTokenExpired p now token)
          \<and> (payload_exp v = Some (JNum expiresAt) \<longrightarrow>
              (expiresAt \<le> of_int now + 30 \<longrightarrow> isTokenExpired p now token)
            \<and> (expiresAt > of_int now + 30 \<and> 0 \<le> now \<longrightarrow>
                  \<not> isTokenExpired p now token)))))"
proof -
  have obj: "truthy v" if "payload_exp v = Some x" for v x
    using that by (cases v) auto
  show ?thesis
    by (auto simp: isTokenExpired_def decodeToken_def Let_def obj)
qed

theorem isTokenExpired_spec_witness:
  "split_dot ''e30.eyJleHAiOjEwMH0.sig'' = [''e30'', ''eyJleHAiOjEwMH0'', ''sig'']
   \<and> base64UrlDecode fixture_platform ''eyJleHAiOjEwMH0'' = Some ''{\"exp\":100}''
   \<and> JSON_parse fixture_platform ''{\"exp\":100}'' = Some (JObj [(''exp'', JNum 100)])
   \<and> payload_exp (JObj [(''exp'', JNum 100)]) = Some (JNum 100)
   \<and> (100 :: rat) > of_int 50 + 30 \<and> (0 :: int) \<le> 50
   \<and> \<not> isTokenExpired fixture_platform 50 ''e30.eyJleHAiOjEwMH0.sig''
   \<and> (100 :: rat) \<le> of_int 70 + 30
   \<and> isTokenExpired fixture_platform 70 ''e30.eyJleHAiOjEwMH0.sig''
   \<and> length (split_dot ''not.a.valid.jwt.token'') \<noteq> 3
   \<and> isTokenExpired fixture_platform 50 ''not.a.valid.jwt.token''
   \<and> split_dot ''invalid.!!!.token'' = [''invalid'', ''!!!'', ''token'']
   \<and> base64UrlDecode fixture_platform ''!!!'' = None
   \<and> isTokenExpired fixture_platform 50 ''invalid.!!!.token''"
proof -
  have a: "split_dot ''e30.eyJleHAiOjEwMH0.sig'' = [''e30'', ''eyJleHAiOjEwMH0'', ''sig'']"
    by simp
  have b: "base64UrlDecode fixture_platform ''eyJleHAiOjEwMH0'' = Some ''{\"exp\":100}''"
    by (simp add: base64UrlDecode_def fixture_platform_def percent_byte_def hex_digit_def)
  have c: "JSON_parse fixture_platform ''{\"exp\":100}'' = Some (JObj [(''exp'', JNum 100)])"
    by (simp add: fixture_platform_def)
  have d: "payload_exp (JObj [(''exp'', JNum 100)]) = Some (JNum 100)"
    by simp
  have e: "length (split_dot ''not.a.valid.jwt.token'') \<noteq> 3"
    by simp
  have f: "split_dot ''invalid.!!!.token'' = [''invalid'', ''!!!'', ''token'']"
    by simp
  have g: "base64UrlDecode fixture_platform ''!!!'' = None"
    by (simp add: base64UrlDecode_def fixture_platform_def)
  show ?thesis
    using a b c d e f g
      isTokenExpired_spec[of "''e30.eyJleHAiOjEwMH0.sig''" fixture_platform 50
        "''e30''" "''eyJleHAiOjEwMH0''" "''sig''" "''{\"exp\":100}''"
        "JObj [(''exp'', JNum 100)]" 100]
      isTokenExpired_spec[of "''e30.eyJleHAiOjEwMH0.sig''" fixture_platform 70
        "''e30''" "''eyJleHAiOjEwMH0''" "''sig''" "''{\"exp\":100}''"
        "JObj [(''exp'', JNum 100)]" 100]
      isTokenExpired_spec[of "''not.a.valid.jwt.token''" fixture_platform 50]
      isTokenExpired_spec[of "''invalid.!!!.token''" fixture_platform 50
        "''invalid''" "''!!!''" "''token''"]
    by simp
qed

text \<open>
  C9 (as amended). Both getters read the scope that \<open>getStorage\<close> picks, and that is the
  durable scope exactly when it holds a non-empty access token. A state in which the
  durable scope holds a non-empty access token and no refresh token while the session
  scope holds both is reached by a logout, storing a pair in the session scope and then an
  access token alone in the durable one; there \<open>getRefreshToken\<close> is \<open>null\<close> although the
  session scope holds the stored refresh token.
\<close>

theorem getRefreshToken_scope:
  "getRefreshToken s =
      (if (\<exists>v. localStorage s ACCESS_TOKEN = Some v \<and> v \<noteq> [])
       then localStorage s REFRESH_TOKEN else sessionStorage s REFRESH_TOKEN)
   \<and> getAccessToken s =
      (if (\<exists>v. localStorage s ACCESS_TOKEN = Some v \<and> v \<noteq> [])
       then localStorage s ACCESS_TOKEN else sessionStorage s ACCESS_TOKEN)
   \<and> (localStorage s ACCESS_TOKEN = Some a \<and> a \<noteq> [] \<and> localStorage s REFRESH_TOKEN = None
        \<and> sessionStorage s ACCESS_TOKEN = Some a' \<and> sessionStorage s REFRESH_TOKEN = Some r'
        \<longrightarrow> getRefreshToken s = None)
   \<and> (a \<noteq> [] \<and> s = setItem Local ACCESS_TOKEN a (storeTokens tokens False (logout s0))
        \<longrightarrow> localStorage s ACCESS_TOKEN = Some a \<and> localStorage s REFRESH_TOKEN = None
          \<and> sessionStorage s ACCESS_TOKEN = Some (accessToken tokens)
          \<and> sessionStorage s REFRESH_TOKEN = Some (refreshToken tokens)
          \<and> getRefreshToken s = None)"
  by (auto simp: getRefreshToken_def getAccessToken_def getStorage_def storeTokens_def
      logout_def ACCESS_TOKEN_def REFRESH_TOKEN_def EXPIRES_IN_def split: option.splits)

theorem getRefreshToken_scope_witness:
  "''local_token'' \<noteq> []
   \<and> localStorage (setItem Local ACCESS_TOKEN ''local_token''
        (storeTokens \<lparr>accessToken = ''session_token'', refreshToken = ''session_refresh'',
            expiresIn = 3600\<rparr> False
          \<lparr>localStorage = Map.empty, sessionStorage = Map.empty\<rparr>)) REFRESH_TOKEN = None
   \<and> sessionStorage (setItem Local ACCESS_TOKEN ''local_token''
        (storeTokens \<lparr>accessToken = ''session_token'', refreshToken = ''session_refresh'',
            expiresIn = 3600\<rparr> False
          \<lparr>localStorage = Map.empty, sessionStorage = Map.empty\<rparr>)) REFRESH_TOKEN
        = Some ''session_refresh''
   \<and> getRefreshToken (setItem Local ACCESS_TOKEN ''local_token''
        (storeTokens \<lparr>accessToken = ''session_token'', refreshToken = ''session_refresh'',
            expiresIn = 3600\<rparr> False
          \<lparr>localStorage = Map.empty, sessionStorage = Map.empty\<rparr>)) = None"
  using getRefreshToken_scope[of
      "setItem Local ACCESS_TOKEN ''local_token''
        (storeTokens \<lparr>accessToken = ''session_token'', refreshToken = ''session_refresh'',
            expiresIn = 3600\<rparr> False
          \<lparr>localStorage = Map.empty, sessionStorage = Map.empty\<rparr>)"
      "''local_token''" "''session_token''" "''session_refresh''"]
  by (simp add: storeTokens_def ACCESS_TOKEN_def REFRESH_TOKEN_def EXPIRES_IN_def)

text \<open>
  C9 as stated fails: of two states whose durable scope contains the access-token key, the
  one that holds the empty string there reads the refresh token from the session scope,
  the other one from the durable scope.
\<close>

theorem getRefreshToken_empty_access_token:
  "localStorage \<lparr>localStorage = [ACCESS_TOKEN \<mapsto> ''''],
       sessionStorage = [ACCESS_TOKEN \<mapsto> ''a'', REFRESH_TOKEN \<mapsto> ''r'']\<rparr> ACCESS_TOKEN = Some ''''
   \<and> getStorage \<lparr>localStorage = [ACCESS_TOKEN \<mapsto> ''''],
       sessionStorage = [ACCESS_TOKEN \<mapsto> ''a'', REFRESH_TOKEN \<mapsto> ''r'']\<rparr> = Session
   \<and> getRefreshToken \<lparr>localStorage = [ACCESS_TOKEN \<mapsto> ''''],
       sessionStorage = [ACCESS_TOKEN \<mapsto> ''a'', REFRESH_TOKEN \<mapsto> ''r'']\<rparr> = Some ''r''
   \<and> localStorage \<lparr>localStorage = [ACCESS_TOKEN \<mapsto> ''b''],
       sessionStorage = [ACCESS_TOKEN \<mapsto> ''a'', REFRESH_TOKEN \<mapsto> ''r'']\<rparr> ACCESS_TOKEN = Some ''b''
   \<and> getStorage \<lparr>localStorage = [ACCESS_TOKEN \<mapsto> ''b''],
       sessionStorage = [ACCESS_TOKEN \<mapsto> ''a'', REFRESH_TOKEN \<mapsto> ''r'']\<rparr> = Local
   \<and> getRefreshToken \<lparr>localStorage = [ACCESS_TOKEN \<mapsto> ''b''],
       sessionStorage = [ACCESS_TOKEN \<mapsto> ''a'', REFRESH_TOKEN \<mapsto> ''r'']\<rparr> = None"
  by (simp add: getRefreshToken_def getStorage_def ACCESS_TOKEN_def REFRESH_TOKEN_def)

section \<open>Properties of the HTTP request pipeline\<close>

lemma fold_processRequest_success:
  "fold (processRequest None token) queue s =
     s\<lparr>dispatched := dispatched s @ map (replayConfig token) queue,
       settled := settled s @
         map (\<lambda>request. (qpromise request, Resolved (replayConfig token request))) queue\<rparr>"
  by (induction queue arbitrary: s) (simp_all add: processRequest_def replayConfig_def Let_def)

lemma fold_processRequest_error:
  "fold (processRequest (Some e) token) queue s =
     s\<lparr>settled := settled s @
         map (\<lambda>request. (qpromise request, Rejected (RefreshError e))) queue\<rparr>"
  by (induction queue arbitrary: s) (simp_all add: processRequest_def)

lemma processQueue_success:
  "processQueue None token s =
     s\<lparr>dispatched := dispatched s @ map (replayConfig token) (requestQueue s),
       settled := settled s @
         map (\<lambda>request. (qpromise request, Resolved (replayConfig token request)))
           (requestQueue s),
       requestQueue := []\<rparr>"
  by (simp add: processQueue_def fold_processRequest_success)

lemma processQueue_error:
  "processQueue (Some e) token s =
     s\<lparr>settled := settled s @
         map (\<lambda>request. (qpromise request, Rejected (RefreshError e))) (requestQueue s),
       requestQueue := []\<rparr>"
  by (simp add: processQueue_def fold_processRequest_error)

lemma single_awaiting:
  "length xs = Suc 0 \<Longrightarrow> map_of xs p = Some c \<Longrightarrow>
     xs = [(p, c)] \<and> filter (\<lambda>a. fst a \<noteq> p) xs = []"
  by (cases xs) (auto split: if_splits)

lemma apiInv_initial: "apiInv (initialApiState st w href)"
  by (simp add: apiInv_def promises_def initialApiState_def)

lemma promises_intercept:
  "set (promises (interceptResponseError error s)) = insert (nextPromise s) (set (promises s))
   \<and> (distinct (promises (interceptResponseError error s)) \<longleftrightarrow>
        distinct (promises s @ [nextPromise s]))
   \<and> nextPromise (interceptResponseError error s) = Suc (nextPromise s)"
  by (auto simp: promises_def interceptResponseError_def Let_def
      split: option.splits if_splits)

lemma apiInv_intercept: "apiInv s \<Longrightarrow> apiInv (interceptResponseError error s)"
proof -
  assume inv: "apiInv s"
  then have fresh: "nextPromise s \<notin> set (promises s)"
    by (auto simp: apiInv_def list_all_iff)
  have flag: "if isRefreshing (interceptResponseError error s)
      then length (awaiting (interceptResponseError error s)) = 1
      else awaiting (interceptResponseError error s) = [] \<and>
        requestQueue (interceptResponseError error s) = []"
    using inv by (auto simp: apiInv_def interceptResponseError_def Let_def
        split: option.splits if_splits)
  have "distinct (promises (interceptResponseError error s))"
    using inv fresh promises_intercept[of error s] by (simp add: apiInv_def)
  moreover have "list_all (\<lambda>p. p < nextPromise (interceptResponseError error s))
      (promises (interceptResponseError error s))"
    using inv promises_intercept[of error s] by (auto simp: apiInv_def list_all_iff)
  ultimately show ?thesis using flag by (simp add: apiInv_def)
qed

lemma apiInv_resolved: "apiInv s \<Longrightarrow> apiInv (refreshResolved promise token s)"
proof (cases "map_of (awaiting s) promise")
  case None
  assume "apiInv s"
  with None show ?thesis by (simp add: refreshResolved_def)
next
  case (Some c)
  assume inv: "apiInv s"
  then have "length (awaiting s) = Suc 0"
    using Some by (auto simp: apiInv_def split: if_splits)
  then have aw: "awaiting s = [(promise, c)]" "filter (\<lambda>a. fst a \<noteq> promise) (awaiting s) = []"
    using single_awaiting[OF _ Some] by auto
  show ?thesis
    using inv Some aw
    by (auto simp: apiInv_def promises_def refreshResolved_def Let_def processQueue_success
        list_all_iff comp_def split: if_splits)
qed

lemma apiInv_rejected: "apiInv s \<Longrightarrow> apiInv (refreshRejected promise err s)"
proof (cases "map_of (awaiting s) promise")
  case None
  assume "apiInv s"
  with None show ?thesis by (simp add: refreshRejected_def)
next
  case (Some c)
  assume inv: "apiInv s"
  then have "length (awaiting s) = Suc 0"
    using Some by (auto simp: apiInv_def split: if_splits)
  then have aw: "awaiting s = [(promise, c)]" "filter (\<lambda>a. fst a \<noteq> promise) (awaiting s) = []"
    using single_awaiting[OF _ Some] by auto
  show ?thesis
    using inv Some aw
    by (auto simp: apiInv_def promises_def refreshRejected_def Let_def processQueue_error
        list_all_iff comp_def split: if_splits)
qed

lemma apiInv_step: "apiInv s \<Longrightarrow> apiInv (apiStep event s)"
  by (cases event) (simp_all add: apiInv_intercept apiInv_resolved apiInv_rejected)

lemma apiInv_run: "apiInv s \<Longrightarrow> apiInv (apiRun events s)"
  unfolding apiRun_def by (induction events arbitrary: s) (simp_all add: apiInv_step)

lemma hasWindow_step: "hasWindow (apiStep event s) = hasWindow s"
  by (cases event)
    (auto simp: interceptResponseError_def refreshResolved_def refreshRejected_def Let_def
      processQueue_success processQueue_error split: option.splits)

lemma hasWindow_fold: "hasWindow (fold apiStep events s) = hasWindow s"
  by (induction events arbitrary: s) (simp_all add: hasWindow_step)

lemma hasWindow_run: "hasWindow (apiRun events (initialApiState st w href)) = w"
  by (simp add: apiRun_def hasWindow_fold initialApiState_def)

lemma apiInv_reachable: "apiInv (apiRun events (initialApiState st w href))"
  by (rule apiInv_run[OF apiInv_initial])

lemma awaiting_cases:
  "apiInv s \<Longrightarrow> (isRefreshing s \<longrightarrow> (\<exists>p c. awaiting s = [(p, c)]))
     \<and> (\<not> isRefreshing s \<longrightarrow> awaiting s = [] \<and> requestQueue s = [])"
  by (cases "awaiting s") (auto simp: apiInv_def split: if_splits)

text \<open>
  C1. In every execution of the pipeline at most one refresh is outstanding, and the
  flag is set exactly while it is. While it is set, a 401 failure of a request that has
  not been retried is queued: its promise stays pending and \<open>refreshAccessToken\<close> is not
  called. When two such requests fail while no refresh is in flight, the first calls
  \<open>refreshAccessToken\<close> once and the second is queued; when that refresh resolves with a
  token, the queued request and the first one are each resolved once, re-issued with
  \<open>Bearer token\<close> as Authorization header, and no promise is ever settled twice. In
  general a resolving refresh resolves every queued request once, in queue order, with the
  new token attached.
\<close>

theorem single_flight_refresh:
  assumes "s = apiRun events (initialApiState st w href)"
    and "errorConfig error1 = Some c1" and "map_option status (response error1) = Some 401"
    and "\<not> retried c1"
    and "errorConfig error2 = Some c2" and "map_option status (response error2) = Some 401"
    and "\<not> retried c2"
    and "token \<noteq> []"
  shows "length (awaiting s) \<le> 1 \<and> (isRefreshing s \<longleftrightarrow> awaiting s \<noteq> [])
    \<and> distinct (map fst (settled s))
    \<and> (isRefreshing s \<longrightarrow>
         refreshCalls (interceptResponseError error1 s) = refreshCalls s
       \<and> requestQueue (interceptResponseError error1 s) =
            requestQueue s @ [\<lparr>qconfig = c1, qpromise = nextPromise s\<rparr>]
       \<and> settled (interceptResponseError error1 s) = settled s
       \<and> dispatched (interceptResponseError error1 s) = dispatched s
       \<and> awaiting (interceptResponseError error1 s) = awaiting s
       \<and> isRefreshing (interceptResponseError error1 s))
    \<and> (\<not> isRefreshing s \<longrightarrow>
         refreshCalls (interceptResponseError error2 (interceptResponseError error1 s)) =
            refreshCalls s + 1
       \<and> settled (interceptResponseError error2 (interceptResponseError error1 s)) = settled s
       \<and> awaiting (interceptResponseError error2 (interceptResponseError error1 s)) =
            [(nextPromise s, c1\<lparr>retried := True\<rparr>)]
       \<and> requestQueue (interceptResponseError error2 (interceptResponseError error1 s)) =
            [\<lparr>qconfig = c2, qpromise = nextPromise s + 1\<rparr>]
       \<and> refreshCalls (refreshResolved (nextPromise s) token
            (interceptResponseError error2 (interceptResponseError error1 s))) =
            refreshCalls s + 1
       \<and> settled (refreshResolved (nextPromise s) token
            (interceptResponseError error2 (interceptResponseError error1 s))) =
            settled s @
              [(nextPromise s + 1, Resolved (c2\<lparr>authorization := Some (bearer token)\<rparr>)),
               (nextPromise s,
                Resolved (c1\<lparr>authorization := Some (bearer token), retried := True\<rparr>))]
       \<and> dispatched (refreshResolved (nextPromise s) token
            (interceptResponseError error2 (interceptResponseError error1 s))) =
            dispatched s @
              [c2\<lparr>authorization := Some (bearer token)\<rparr>,
               c1\<lparr>authorization := Some (bearer token), retried := True\<rparr>]
       \<and> requestQueue (refreshResolved (nextPromise s) token
            (interceptResponseError error2 (interceptResponseError error1 s))) = []
       \<and> \<not> isRefreshing (refreshResolved (nextPromise s) token
            (interceptResponseError error2 (interceptResponseError error1 s))))
    \<and> (\<forall>promise c. awaiting s = [(promise, c)] \<longrightarrow>
         settled (refreshResolved promise token s) =
           settled s @
             map (\<lambda>request. (qpromise request,
                    Resolved ((qconfig request)\<lparr>authorization := Some (bearer token)\<rparr>)))
               (requestQueue s) @
             [(promise, Resolved (c\<lparr>authorization := Some (bearer token)\<rparr>))]
       \<and> refreshCalls (refreshResolved promise token s) = refreshCalls s
       \<and> requestQueue (refreshResolved promise token s) = []
       \<and> \<not> isRefreshing (refreshResolved promise token s))"
proof -
  have inv: "apiInv s" unfolding assms(1) by (rule apiInv_reachable)
  note aw = awaiting_cases[OF inv]
  have p1: "length (awaiting s) \<le> 1 \<and> (isRefreshing s \<longleftrightarrow> awaiting s \<noteq> [])"
    using aw by (cases "isRefreshing s") auto
  have p2: "distinct (map fst (settled s))"
    using inv by (simp add: apiInv_def promises_def)
  have p3: "isRefreshing s \<longrightarrow>
         refreshCalls (interceptResponseError error1 s) = refreshCalls s
       \<and> requestQueue (interceptResponseError error1 s) =
            requestQueue s @ [\<lparr>qconfig = c1, qpromise = nextPromise s\<rparr>]
       \<and> settled (interceptResponseError error1 s) = settled s
       \<and> dispatched (interceptResponseError error1 s) = dispatched s
       \<and> awaiting (interceptResponseError error1 s) = awaiting s
       \<and> isRefreshing (interceptResponseError error1 s)"
    using assms(2-4) by (simp add: interceptResponseError_def Let_def)
  have p4: "\<not> isRefreshing s \<longrightarrow>
         refreshCalls (interceptResponseError error2 (interceptResponseError error1 s)) =
            refreshCalls s + 1
       \<and> settled (interceptResponseError error2 (interceptResponseError error1 s)) = settled s
       \<and> awaiting (interceptResponseError error2 (interceptResponseError error1 s)) =
            [(nextPromise s, c1\<lparr>retried := True\<rparr>)]
       \<and> requestQueue (interceptResponseError error2 (interceptResponseError error1 s)) =
            [\<lparr>qconfig = c2, qpromise = nextPromise s + 1\<rparr>]
       \<and> refreshCalls (refreshResolved (nextPromise s) token
            (interceptResponseError error2 (interceptResponseError error1 s))) =
            refreshCalls s + 1
       \<and> settled (refreshResolved (nextPromise s) token
            (interceptResponseError error2 (interceptResponseError error1 s))) =
            settled s @
              [(nextPromise s + 1, Resolved (c2\<lparr>authorization := Some (bearer token)\<rparr>)),
               (nextPromise s,
                Resolved (c1\<lparr>authorization := Some (bearer token), retried := True\<rparr>))]
       \<and> dispatched (refreshResolved (nextPromise s) token
            (interceptResponseError error2 (interceptResponseError error1 s))) =
            dispatched s @
              [c2\<lparr>authorization := Some (bearer token)\<rparr>,
               c1\<lparr>authorization := Some (bearer token), retried := True\<rparr>]
       \<and> requestQueue (refreshResolved (nextPromise s) token
            (interceptResponseError error2 (interceptResponseError error1 s))) = []
       \<and> \<not> isRefreshing (refreshResolved (nextPromise s) token
            (interceptResponseError error2 (interceptResponseError error1 s)))"
    using assms(2-8) aw
    by (simp add: interceptResponseError_def refreshResolved_def Let_def
        processQueue_success replayConfig_def)
  have p5: "\<forall>promise c. awaiting s = [(promise, c)] \<longrightarrow>
         settled (refreshResolved promise token s) =
           settled s @
             map (\<lambda>request. (qpromise request,
                    Resolved ((qconfig request)\<lparr>authorization := Some (bearer token)\<rparr>)))
               (requestQueue s) @
             [(promise, Resolved (c\<lparr>authorization := Some (bearer token)\<rparr>))]
       \<and> refreshCalls (refreshResolved promise token s) = refreshCalls s
       \<and> requestQueue (refreshResolved promise token s) = []
       \<and> \<not> isRefreshing (refreshResolved promise token s)"
    using assms(8)
    by (simp add: refreshResolved_def Let_def processQueue_success replayConfig_def)
  from p1 p2 p3 p4 p5 show ?thesis by blast
qed

theorem single_flight_refresh_witness:
  "\<not> isRefreshing (apiRun [] (initialApiState emptyStorage True ''/'' :: string ApiState))
   \<and> refreshCalls (interceptResponseError (unauthorized usersRequest)
        (interceptResponseError (unauthorized postsRequest)
          (apiRun [] (initialApiState emptyStorage True ''/'' :: string ApiState)))) = 1
   \<and> settled (refreshResolved 0 ''new''
        (interceptResponseError (unauthorized usersRequest)
          (interceptResponseError (unauthorized postsRequest)
            (apiRun [] (initialApiState emptyStorage True ''/'' :: string ApiState))))) =
      [(1, Resolved (usersRequest\<lparr>authorization := Some ''Bearer new''\<rparr>)),
       (0, Resolved (postsRequest\<lparr>authorization := Some ''Bearer new'', retried := True\<rparr>))]
   \<and> isRefreshing (apiRun [ResponseError (unauthorized postsRequest)]
        (initialApiState emptyStorage True ''/'' :: string ApiState))
   \<and> requestQueue (interceptResponseError (unauthorized usersRequest)
        (apiRun [ResponseError (unauthorized postsRequest)]
          (initialApiState emptyStorage True ''/'' :: string ApiState))) =
      [\<lparr>qconfig = usersRequest, qpromise = 1\<rparr>]
   \<and> refreshCalls (interceptResponseError (unauthorized usersRequest)
        (apiRun [ResponseError (unauthorized postsRequest)]
          (initialApiState emptyStorage True ''/'' :: string ApiState))) = 1
   \<and> settled (interceptResponseError (unauthorized usersRequest)
        (apiRun [ResponseError (unauthorized postsRequest)]
          (initialApiState emptyStorage True ''/'' :: string ApiState))) = []"
  using single_flight_refresh[OF refl, of "unauthorized postsRequest" postsRequest
      "unauthorized usersRequest" usersRequest "''new''" "[]" emptyStorage True "''/''"]
    single_flight_refresh[OF refl, of "unauthorized usersRequest" usersRequest
      "unauthorized usersRequest" usersRequest "''new''"
      "[ResponseError (unauthorized postsRequest)]" emptyStorage True "''/''"]
  by (simp add: unauthorized_def postsRequest_def usersRequest_def apiRun_def
      initialApiState_def interceptResponseError_def refreshResolved_def processQueue_def
      processRequest_def bearer_def Let_def)

text \<open>
  C8. When the refresh awaited by the interceptor of a request rejects, in a browser
  (\<open>window\<close> defined): every queued request and then the triggering request are rejected
  with the refresh error, nothing is re-issued, no promise is settled twice, \<open>logout\<close> is
  called once and leaves none of the three keys in either storage, \<open>location.href\<close> is
  \<open>/login\<close>, the queue is empty and \<open>isRefreshing\<close> is cleared. In particular a single
  401 response whose refresh fails gives one \<open>logout\<close> call and navigation to \<open>/login\<close>.
\<close>

theorem failed_refresh_teardown:
  assumes "s = apiRun events (initialApiState st True href)"
  shows "(awaiting s = [(promise, c)] \<longrightarrow>
       settled (refreshRejected promise refreshError s) =
         settled s @
           map (\<lambda>request. (qpromise request, Rejected (RefreshError refreshError)))
             (requestQueue s) @
           [(promise, Rejected (RefreshError refreshError))]
     \<and> distinct (map fst (settled (refreshRejected promise refreshError s)))
     \<and> dispatched (refreshRejected promise refreshError s) = dispatched s
     \<and> logoutCalls (refreshRejected promise refreshError s) = logoutCalls s + 1
     \<and> storage (refreshRejected promise refreshError s) = logout (storage s)
     \<and> (\<forall>sc. getItem sc ACCESS_TOKEN (storage (refreshRejected promise refreshError s)) = None
            \<and> getItem sc REFRESH_TOKEN (storage (refreshRejected promise refreshError s)) = None
            \<and> getItem sc EXPIRES_IN (storage (refreshRejected promise refreshError s)) = None)
     \<and> location_href (refreshRejected promise refreshError s) = ''/login''
     \<and> requestQueue (refreshRejected promise refreshError s) = []
     \<and> awaiting (refreshRejected promise refreshError s) = []
     \<and> refreshCalls (refreshRejected promise refreshError s) = refreshCalls s
     \<and> \<not> isRefreshing (refreshRejected promise refreshError s))
   \<and> (\<not> isRefreshing s \<and> errorConfig error = Some c
        \<and> map_option status (response error) = Some 401 \<and> \<not> retried c \<longrightarrow>
       settled (refreshRejected (nextPromise s) refreshError (interceptResponseError error s)) =
         settled s @ [(nextPromise s, Rejected (RefreshError refreshError))]
     \<and> refreshCalls (refreshRejected (nextPromise s) refreshError
          (interceptResponseError error s)) = refreshCalls s + 1
     \<and> logoutCalls (refreshRejected (nextPromise s) refreshError
          (interceptResponseError error s)) = logoutCalls s + 1
     \<and> location_href (refreshRejected (nextPromise s) refreshError
          (interceptResponseError error s)) = ''/login''
     \<and> \<not> isRefreshing (refreshRejected (nextPromise s) refreshError
          (interceptResponseError error s)))"
proof -
  have inv: "apiInv s" unfolding assms(1) by (rule apiInv_reachable)
  have w: "hasWindow s" unfolding assms(1) by (simp add: hasWindow_run)
  note aw = awaiting_cases[OF inv]
  have gone: "getItem sc ACCESS_TOKEN (logout t) = None
      \<and> getItem sc REFRESH_TOKEN (logout t) = None
      \<and> getItem sc EXPIRES_IN (logout t) = None" for sc t
    by (cases sc) (simp_all add: logout_def ACCESS_TOKEN_def REFRESH_TOKEN_def EXPIRES_IN_def)
  have p1: "awaiting s = [(promise, c)] \<longrightarrow>
       settled (refreshRejected promise refreshError s) =
         settled s @
           map (\<lambda>request. (qpromise request, Rejected (RefreshError refreshError)))
             (requestQueue s) @
           [(promise, Rejected (RefreshError refreshError))]
     \<and> distinct (map fst (settled (refreshRejected promise refreshError s)))
     \<and> dispatched (refreshRejected promise refreshError s) = dispatched s
     \<and> logoutCalls (refreshRejected promise refreshError s) = logoutCalls s + 1
     \<and> storage (refreshRejected promise refreshError s) = logout (storage s)
     \<and> (\<forall>sc. getItem sc ACCESS_TOKEN (storage (refreshRejected promise refreshError s)) = None
            \<and> getItem sc REFRESH_TOKEN (storage (refreshRejected promise refreshError s)) = None
            \<and> getItem sc EXPIRES_IN (storage (refreshRejected promise refreshError s)) = None)
     \<and> location_href (refreshRejected promise refreshError s) = ''/login''
     \<and> requestQueue (refreshRejected promise refreshError s) = []
     \<and> awaiting (refreshRejected promise refreshError s) = []
     \<and> refreshCalls (refreshRejected promise refreshError s) = refreshCalls s
     \<and> \<not> isRefreshing (refreshRejected promise refreshError s)"
  proof
    assume a: "awaiting s = [(promise, c)]"
    have "apiInv (refreshRejected promise refreshError s)"
      using inv by (rule apiInv_rejected)
    then have d: "distinct (map fst (settled (refreshRejected promise refreshError s)))"
      by (simp add: apiInv_def promises_def)
    have st: "storage (refreshRejected promise refreshError s) = logout (storage s)"
      using a w by (simp add: refreshRejected_def Let_def processQueue_error)
    show "settled (refreshRejected promise refreshError s) =
         settled s @
           map (\<lambda>request. (qpromise request, Rejected (RefreshError refreshError)))
             (requestQueue s) @
           [(promise, Rejected (RefreshError refreshError))]
     \<and> distinct (map fst (settled (refreshRejected promise refreshError s)))
     \<and> dispatched (refreshRejected promise refreshError s) = dispatched s
     \<and> logoutCalls (refreshRejected promise refreshError s) = logoutCalls s + 1
     \<and> storage (refreshRejected promise refreshError s) = logout (storage s)
     \<and> (\<forall>sc. getItem sc ACCESS_TOKEN (storage (refreshRejected promise refreshError s)) = None
            \<and> getItem sc REFRESH_TOKEN (storage (refreshRejected promise refreshError s)) = None
            \<and> getItem sc EXPIRES_IN (storage (refreshRejected promise refreshError s)) = None)
     \<and> location_href (refreshRejected promise refreshError s) = ''/login''
     \<and> requestQueue (refreshRejected promise refreshError s) = []
     \<and> awaiting (refreshRejected promise refreshError s) = []
     \<and> refreshCalls (refreshRejected promise refreshError s) = refreshCalls s
     \<and> \<not> isRefreshing (refreshRejected promise refreshError s)"
      unfolding st using d gone a w
      by (simp add: refreshRejected_def Let_def processQueue_error)
  qed
  have p2: "\<not> isRefreshing s \<and> errorConfig error = Some c
        \<and> map_option status (response error) = Some 401 \<and> \<not> retried c \<longrightarrow>
       settled (refreshRejected (nextPromise s) refreshError (interceptResponseError error s)) =
         settled s @ [(nextPromise s, Rejected (RefreshError refreshError))]
     \<and> refreshCalls (refreshRejected (nextPromise s) refreshError
          (interceptResponseError error s)) = refreshCalls s + 1
     \<and> logoutCalls (refreshRejected (nextPromise s) refreshError
          (interceptResponseError error s)) = logoutCalls s + 1
     \<and> location_href (refreshRejected (nextPromise s) refreshError
          (interceptResponseError error s)) = ''/login''
     \<and> \<not> isRefreshing (refreshRejected (nextPromise s) refreshError
          (interceptResponseError error s))"
    using aw w
    by (auto simp add: interceptResponseError_def refreshRejected_def Let_def
        processQueue_error)
  from p1 p2 show ?thesis by blast
qed

theorem failed_refresh_teardown_witness:
  "awaiting (apiRun [ResponseError (unauthorized postsRequest),
        ResponseError (unauthorized usersRequest)]
      (initialApiState (storeTokens \<lparr>accessToken = ''old'', refreshToken = ''stale'',
         expiresIn = 3600\<rparr> True emptyStorage) True ''/posts'' :: string ApiState)) =
      [(0, postsRequest\<lparr>retried := True\<rparr>)]
   \<and> settled (refreshRejected 0 ''Refresh token has expired''
      (apiRun [ResponseError (unauthorized postsRequest),
        ResponseError (unauthorized usersRequest)]
      (initialApiState (storeTokens \<lparr>accessToken = ''old'', refreshToken = ''stale'',
         expiresIn = 3600\<rparr> True emptyStorage) True ''/posts'' :: string ApiState))) =
      [(1, Rejected (RefreshError ''Refresh token has expired'')),
       (0, Rejected (RefreshError ''Refresh token has expired''))]
   \<and> logoutCalls (refreshRejected 0 ''Refresh token has expired''
      (apiRun [ResponseError (unauthorized postsRequest),
        ResponseError (unauthorized usersRequest)]
      (initialApiState (storeTokens \<lparr>accessToken = ''old'', refreshToken = ''stale'',
         expiresIn = 3600\<rparr> True emptyStorage) True ''/posts'' :: string ApiState))) = 1
   \<and> location_href (refreshRejected 0 ''Refresh token has expired''
      (apiRun [ResponseError (unauthorized postsRequest),
        ResponseError (unauthorized usersRequest)]
      (initialApiState (storeTokens \<lparr>accessToken = ''old'', refreshToken = ''stale'',
         expiresIn = 3600\<rparr> True emptyStorage) True ''/posts'' :: string ApiState))) =
      ''/login''
   \<and> \<not> isRefreshing (apiRun [] (initialApiState emptyStorage True ''/posts''
        :: string ApiState))
   \<and> logoutCalls (refreshRejected 0 ''No refresh token available''
        (interceptResponseError (unauthorized postsRequest)
          (apiRun [] (initialApiState emptyStorage True ''/posts'' :: string ApiState)))) = 1
   \<and> location_href (refreshRejected 0 ''No refresh token available''
        (interceptResponseError (unauthorized postsRequest)
          (apiRun [] (initialApiState emptyStorage True ''/posts'' :: string ApiState)))) =
      ''/login''"
proof -
  let ?s = "apiRun [ResponseError (unauthorized postsRequest),
        ResponseError (unauthorized usersRequest)]
      (initialApiState (storeTokens \<lparr>accessToken = ''old'', refreshToken = ''stale'',
         expiresIn = 3600\<rparr> True emptyStorage) True ''/posts'' :: string ApiState)"
  have aw: "awaiting ?s = [(0, postsRequest\<lparr>retried := True\<rparr>)]"
    and q: "requestQueue ?s = [\<lparr>qconfig = usersRequest, qpromise = 1\<rparr>]"
    and st: "settled ?s = []" and lc: "logoutCalls ?s = 0"
    by (simp_all add: unauthorized_def postsRequest_def usersRequest_def apiRun_def
        initialApiState_def interceptResponseError_def Let_def)
  let ?t = "apiRun [] (initialApiState emptyStorage True ''/posts'' :: string ApiState)"
  have t: "\<not> isRefreshing ?t" "nextPromise ?t = 0" "logoutCalls ?t = 0"
    by (simp_all add: apiRun_def initialApiState_def)
  have c: "errorConfig (unauthorized postsRequest) = Some postsRequest"
    "map_option status (response (unauthorized postsRequest)) = Some 401"
    "\<not> retried postsRequest"
    by (simp_all add: unauthorized_def postsRequest_def)
  show ?thesis
    using aw q st lc t c
      failed_refresh_teardown[OF refl, where events =
          "[ResponseError (unauthorized postsRequest),
            ResponseError (unauthorized usersRequest)]"
        and st = "storeTokens \<lparr>accessToken = ''old'', refreshToken = ''stale'',
           expiresIn = 3600\<rparr> True emptyStorage" and href = "''/posts''"
        and promise = 0 and c = "postsRequest\<lparr>retried := True\<rparr>"
        and refreshError = "''Refresh token has expired''"]
      failed_refresh_teardown[OF refl, where events = "[]" and st = emptyStorage
        and href = "''/posts''" and refreshError = "''No refresh token available''"
        and error = "unauthorized postsRequest" and c = postsRequest]
    by simp
qed

section \<open>Properties of the WebSocket connection manager\<close>

lemma pushMessage_step:
  "length h \<le> 100 \<Longrightarrow>
   pushMessage 100 d h = (if length h < 100 then h @ [d] else tl h @ [d])"
  by (cases h) (auto simp: pushMessage_def Let_def)

lemma pushMessage_length: "length h \<le> 100 \<Longrightarrow> length (pushMessage 100 d h) \<le> 100"
  by (auto simp: pushMessage_def Let_def)

lemma last100_push:
  assumes "length h \<le> 100"
  shows "drop (length (pushMessage 100 d h @ ds) - 100) (pushMessage 100 d h @ ds) =
         drop (length (h @ d # ds) - 100) (h @ d # ds)"
proof (cases "length h < 100")
  case True
  then show ?thesis using assms by (simp add: pushMessage_step)
next
  case False
  with assms have l: "length h = 100" by simp
  then obtain x xs where h: "h = x # xs" by (cases h) auto
  with l have "length xs = 99" by simp
  then show ?thesis using h l
    by (simp add: pushMessage_step Suc_diff_le)
qed

lemma list_all_update:
  "list_all P xs \<Longrightarrow> (i < length xs \<Longrightarrow> P x) \<Longrightarrow> list_all P (xs[i := x])"
  by (cases "i < length xs") (auto simp: list_all_length nth_list_update)

lemma wsInv_modify:
  assumes "wsInv s" and "\<And>inst. instOK inst \<Longrightarrow> instOK (f inst)"
  shows "wsInv (modify i f s)"
proof -
  have "i < length (instances s) \<Longrightarrow> instOK (f (instances s ! i))"
    using assms by (auto simp: wsInv_def list_all_length)
  then show ?thesis
    using assms(1) by (simp add: wsInv_def modify_def list_all_update)
qed

lemma wsInv_create: "wsInv s \<Longrightarrow> wsInv (snd (create u s))"
  by (auto simp: wsInv_def create_def Let_def newInstance_def instOK_def less_Suc_eq)

lemma wsInv_unregister: "wsInv s \<Longrightarrow> wsInv (s\<lparr>connections := (connections s)(u := None)\<rparr>)"
  by (auto simp: wsInv_def)

lemma wsInv_connect: "wsInv s \<Longrightarrow> wsInv (snd (connect u s))"
  by (auto simp: connect_def wsInv_create wsInv_unregister split: option.splits)


lemma length_modify [simp]: "length (instances (modify i f s)) = length (instances s)"
  by (simp add: modify_def)

lemma modify_fields [simp]:
  "delivered (modify i f s) = delivered s" "timers (modify i f s) = timers s"
  "connections (modify i f s) = connections s"
  "statusDelivered (modify i f s) = statusDelivered s"
  by (simp_all add: modify_def)

lemma nth_modify:
  "k < length (instances s) \<Longrightarrow>
   instances (modify i f s) ! k = (if i = k then f (instances s ! k) else instances s ! k)"
  by (simp add: modify_def nth_list_update)

lemma connect_store:
  "length (instances s) \<le> length (instances (snd (connect u s)))
   \<and> (k < length (instances s) \<longrightarrow> instances (snd (connect u s)) ! k = instances s ! k)"
  by (auto simp: connect_def create_def Let_def nth_append split: option.splits)

lemma notify_store [simp]: "instances (notifyStatusSubscribers i s) = instances s"
  by (simp add: notifyStatusSubscribers_def Let_def)

lemma notify_connections [simp]: "connections (notifyStatusSubscribers i s) = connections s"
  by (simp add: notifyStatusSubscribers_def Let_def)

lemma wsInv_notify: "wsInv (notifyStatusSubscribers i s) = wsInv s"
  by (simp add: wsInv_def)

lemma wsInv_observe:
  "instances s' = instances s \<Longrightarrow> connections s' = connections s \<Longrightarrow> wsInv s' = wsInv s"
  by (simp add: wsInv_def)

lemma instOK_set_add: "distinct cbs \<Longrightarrow> distinct (set_add cb cbs)"
  by (simp add: set_add_def)

lemma wsInv_subscribe: "wsInv s \<Longrightarrow> wsInv (snd (subscribe u cb r s))"
proof -
  assume inv: "wsInv s"
  obtain i s1 where c: "connect u s = (i, s1)" by (cases "connect u s")
  have s1: "wsInv s1" using wsInv_connect[OF inv, of u] c by simp
  have "wsInv (modify i (\<lambda>inst. inst\<lparr>subscribers := set_add cb (subscribers inst)\<rparr>) s1)"
    by (rule wsInv_modify[OF s1]) (simp add: instOK_def instOK_set_add)
  then show ?thesis
    using c by (simp add: subscribe_def Let_def wsInv_def)
qed

lemma wsInv_subscribeToStatus: "wsInv s \<Longrightarrow> wsInv (snd (subscribeToStatus u cb s))"
proof -
  assume inv: "wsInv s"
  obtain i s1 where c: "connect u s = (i, s1)" by (cases "connect u s")
  have s1: "wsInv s1" using wsInv_connect[OF inv, of u] c by simp
  have "wsInv (modify i (\<lambda>inst. inst\<lparr>statusSubscribers :=
      set_add cb (statusSubscribers inst)\<rparr>) s1)"
    by (rule wsInv_modify[OF s1]) (simp add: instOK_def)
  then show ?thesis
    using c by (simp add: subscribeToStatus_def Let_def wsInv_def)
qed

lemma wsInv_onmessage: "wsInv s \<Longrightarrow> wsInv (ws_onmessage parse i raw s)"
proof (cases "parse raw")
  case None
  assume "wsInv s"
  with None show ?thesis by (simp add: ws_onmessage_def)
next
  case (Some d)
  assume inv: "wsInv s"
  have "wsInv (modify i (\<lambda>inst. inst\<lparr>lastMessages :=
      pushMessage (maxMessages inst) d (lastMessages inst)\<rparr>) s)"
    by (rule wsInv_modify[OF inv]) (auto simp: instOK_def pushMessage_length)
  then show ?thesis
    using inv Some by (simp add: ws_onmessage_def Let_def wsInv_def)
qed

lemma wsInv_onclose: "wsInv s \<Longrightarrow> wsInv (ws_onclose i wasClean s)"
proof -
  assume inv: "wsInv s"
  have "wsInv (modify i (\<lambda>inst. inst\<lparr>readyState := CLOSED, isConnected := False,
      isConnecting := False\<rparr>) s)"
    by (rule wsInv_modify[OF inv]) (simp add: instOK_def)
  then show ?thesis
    using inv by (simp add: ws_onclose_def Let_def wsInv_def)
qed

lemma wsInv_fireTimer: "wsInv s \<Longrightarrow> wsInv (fireTimer k s)"
proof (cases "k < length (timers s)")
  case False
  assume "wsInv s"
  with False show ?thesis by (simp add: fireTimer_def)
next
  case True
  assume inv: "wsInv s"
  let ?s = "s\<lparr>timers := take k (timers s) @ drop (Suc k) (timers s)\<rparr>"
  have s: "wsInv ?s" using inv by (simp add: wsInv_def)
  show ?thesis
  proof (cases "snd (timers s ! k)")
    case (Replay i cb)
    with True s show ?thesis by (simp add: fireTimer_def runTask_def wsInv_def)
  next
    case (Reconnect u)
    with True wsInv_connect[OF s, of u] show ?thesis by (simp add: fireTimer_def runTask_def)
  qed
qed

lemma wsInv_step: "wsInv s \<Longrightarrow> wsInv (wsStep parse ev s)"
proof (cases ev)
  case (Connect u)
  assume "wsInv s"
  then show ?thesis unfolding Connect by (simp add: wsInv_connect)
next
  case (Subscribe u cb r)
  assume "wsInv s"
  then show ?thesis unfolding Subscribe by (simp add: wsInv_subscribe)
next
  case (Unsubscribe i cb)
  assume inv: "wsInv s"
  have "wsInv (modify i (\<lambda>inst. inst\<lparr>subscribers := set_delete cb (subscribers inst)\<rparr>) s)"
    by (rule wsInv_modify[OF inv]) (simp add: instOK_def set_delete_def distinct_removeAll)
  with inv show ?thesis unfolding Unsubscribe by (simp add: unsubscribe_def)
next
  case (SubscribeToStatus u cb)
  assume "wsInv s"
  then show ?thesis unfolding SubscribeToStatus by (simp add: wsInv_subscribeToStatus)
next
  case (UnsubscribeStatus i cb)
  assume inv: "wsInv s"
  have "wsInv (modify i (\<lambda>inst. inst\<lparr>statusSubscribers :=
      set_delete cb (statusSubscribers inst)\<rparr>) s)"
    by (rule wsInv_modify[OF inv]) (simp add: instOK_def)
  with inv show ?thesis unfolding UnsubscribeStatus by (simp add: unsubscribeStatus_def)
next
  case (Send u msg)
  assume "wsInv s"
  then show ?thesis unfolding Send by (simp add: send_def wsInv_def split: option.splits)
next
  case (Disconnect u)
  assume inv: "wsInv s"
  have "wsInv (modify i (\<lambda>inst. inst\<lparr>readyState :=
      (if readyState inst = CLOSED then CLOSED else CLOSING)\<rparr>) s)" for i
    by (rule wsInv_modify[OF inv]) (simp add: instOK_def)
  with inv show ?thesis unfolding Disconnect
    by (auto simp: disconnect_def wsInv_def split: option.splits)
next
  case (OnOpen i)
  assume inv: "wsInv s"
  have "wsInv (modify i (\<lambda>inst. inst\<lparr>readyState := OPEN, isConnected := True,
      isConnecting := False, wsError := None\<rparr>) s)"
    by (rule wsInv_modify[OF inv]) (simp add: instOK_def)
  with inv show ?thesis unfolding OnOpen by (simp add: ws_onopen_def wsInv_notify)
next
  case (OnMessage i raw)
  assume "wsInv s"
  then show ?thesis unfolding OnMessage by (simp add: wsInv_onmessage)
next
  case (OnError i)
  assume inv: "wsInv s"
  have "wsInv (modify i (\<lambda>inst. inst\<lparr>wsError := Some ''WebSocket connection error'',
      isConnecting := False\<rparr>) s)"
    by (rule wsInv_modify[OF inv]) (simp add: instOK_def)
  with inv show ?thesis unfolding OnError by (simp add: ws_onerror_def wsInv_notify)
next
  case (OnClose i wasClean)
  assume "wsInv s"
  then show ?thesis unfolding OnClose by (simp add: wsInv_onclose)
next
  case (FireTimer k)
  assume "wsInv s"
  then show ?thesis unfolding FireTimer by (simp add: wsInv_fireTimer)
qed

lemma wsInv_run: "wsInv s \<Longrightarrow> wsInv (wsRun parse events s)"
  unfolding wsRun_def by (induction events arbitrary: s) (simp_all add: wsInv_step)

lemma wsInv_empty: "wsInv emptyManager"
  by (simp add: wsInv_def emptyManager_def)

lemma fold_pushMessage:
  "length h \<le> 100 \<Longrightarrow>
   fold (pushMessage 100) ds h = drop (length (h @ ds) - 100) (h @ ds)"
proof (induction ds arbitrary: h)
  case Nil
  then show ?case by simp
next
  case (Cons d ds)
  have "fold (pushMessage 100) (d # ds) h = fold (pushMessage 100) ds (pushMessage 100 d h)"
    by simp
  also have "\<dots> = drop (length (pushMessage 100 d h @ ds) - 100) (pushMessage 100 d h @ ds)"
    using Cons.prems by (intro Cons.IH pushMessage_length)
  also have "\<dots> = drop (length (h @ d # ds) - 100) (h @ d # ds)"
    using Cons.prems by (rule last100_push)
  finally show ?case .
qed

lemma subscribe_store:
  "length (instances s) \<le> length (instances (snd (subscribe u cb r s)))
   \<and> (k < length (instances s) \<longrightarrow>
        lastMessages (instances (snd (subscribe u cb r s)) ! k) = lastMessages (instances s ! k))"
proof -
  obtain i s1 where c: "connect u s = (i, s1)" by (cases "connect u s")
  have l: "length (instances s) \<le> length (instances s1)"
    and n: "k < length (instances s) \<Longrightarrow> instances s1 ! k = instances s ! k"
    using connect_store[of s u k] c by auto
  show ?thesis
    using l n c by (auto simp: subscribe_def Let_def nth_modify)
qed

lemma subscribeToStatus_store:
  "length (instances s) \<le> length (instances (snd (subscribeToStatus u cb s)))
   \<and> (k < length (instances s) \<longrightarrow>
        lastMessages (instances (snd (subscribeToStatus u cb s)) ! k) =
        lastMessages (instances s ! k))"
proof -
  obtain i s1 where c: "connect u s = (i, s1)" by (cases "connect u s")
  have l: "length (instances s) \<le> length (instances s1)"
    and n: "k < length (instances s) \<Longrightarrow> instances s1 ! k = instances s ! k"
    using connect_store[of s u k] c by auto
  show ?thesis
    using l n c by (auto simp: subscribeToStatus_def Let_def nth_modify)
qed

lemma fireTimer_store:
  "length (instances s) \<le> length (instances (fireTimer j s))
   \<and> (k < length (instances s) \<longrightarrow>
        lastMessages (instances (fireTimer j s) ! k) = lastMessages (instances s ! k))"
proof (cases "j < length (timers s)")
  case False
  then show ?thesis by (simp add: fireTimer_def)
next
  case True
  let ?s = "s\<lparr>timers := take j (timers s) @ drop (Suc j) (timers s)\<rparr>"
  show ?thesis
  proof (cases "snd (timers s ! j)")
    case (Replay i cb)
    with True show ?thesis by (simp add: fireTimer_def runTask_def)
  next
    case (Reconnect u)
    with True connect_store[of ?s u k] show ?thesis by (simp add: fireTimer_def runTask_def)
  qed
qed

lemma history_step:
  assumes "k < length (instances s)" and "wsInv s"
  shows "length (instances s) \<le> length (instances (wsStep parse ev s))
    \<and> lastMessages (instances (wsStep parse ev s) ! k) =
        fold (pushMessage 100) (arrived parse k [ev]) (lastMessages (instances s ! k))"
proof (cases ev)
  case (Connect u)
  with assms connect_store[of s u k] show ?thesis
    by (simp add: arrived_def List.map_filter_simps)
next
  case (Subscribe u cb r)
  with assms subscribe_store[of s u cb r k] show ?thesis
    by (simp add: arrived_def List.map_filter_simps)
next
  case (Unsubscribe i cb)
  with assms show ?thesis
    by (simp add: arrived_def List.map_filter_simps unsubscribe_def nth_modify)
next
  case (SubscribeToStatus u cb)
  with assms subscribeToStatus_store[of s u cb k] show ?thesis
    by (simp add: arrived_def List.map_filter_simps)
next
  case (UnsubscribeStatus i cb)
  with assms show ?thesis
    by (simp add: arrived_def List.map_filter_simps unsubscribeStatus_def nth_modify)
next
  case (Send u msg)
  with assms show ?thesis
    by (simp add: arrived_def List.map_filter_simps send_def split: option.splits)
next
  case (Disconnect u)
  with assms show ?thesis
    by (simp add: arrived_def List.map_filter_simps disconnect_def nth_modify
        split: option.splits)
next
  case (OnOpen i)
  with assms show ?thesis
    by (simp add: arrived_def List.map_filter_simps ws_onopen_def nth_modify)
next
  case (OnMessage i raw)
  have "maxMessages (instances s ! k) = 100"
    using assms by (simp add: wsInv_def list_all_length instOK_def)
  with OnMessage assms show ?thesis
    by (simp add: arrived_def List.map_filter_simps ws_onmessage_def Let_def nth_modify
        split: option.splits)
next
  case (OnError i)
  with assms show ?thesis
    by (simp add: arrived_def List.map_filter_simps ws_onerror_def nth_modify)
next
  case (OnClose i wasClean)
  with assms show ?thesis
    by (simp add: arrived_def List.map_filter_simps ws_onclose_def Let_def nth_modify)
next
  case (FireTimer j)
  with assms fireTimer_store[of s j k] show ?thesis
    by (simp add: arrived_def List.map_filter_simps)
qed

lemma arrived_Cons: "arrived parse k (ev # evs) = arrived parse k [ev] @ arrived parse k evs"
  by (simp add: arrived_def List.map_filter_def)

lemma history_run:
  "k < length (instances s) \<Longrightarrow> wsInv s \<Longrightarrow>
   length (instances s) \<le> length (instances (wsRun parse evs s))
   \<and> lastMessages (instances (wsRun parse evs s) ! k) =
       fold (pushMessage 100) (arrived parse k evs) (lastMessages (instances s ! k))"
proof (induction evs arbitrary: s)
  case Nil
  then show ?case by (simp add: wsRun_def arrived_def List.map_filter_simps)
next
  case (Cons ev evs)
  note st = history_step[OF Cons.prems, of parse ev]
  have k: "k < length (instances (wsStep parse ev s))" using st Cons.prems(1) by simp
  have inv: "wsInv (wsStep parse ev s)" using Cons.prems(2) by (rule wsInv_step)
  note ih = Cons.IH[OF k inv]
  have run: "wsRun parse (ev # evs) s = wsRun parse evs (wsStep parse ev s)"
    by (simp add: wsRun_def)
  show ?case
    unfolding run using ih st by (simp add: arrived_Cons[of parse k ev evs])
qed

text \<open>
  C3. In every state the manager reaches, the history of every instance has at most 100
  entries. Whatever events follow, the history is then the last 100 of the old history
  followed by the messages that arrived on that socket and parsed, in arrival order; for
  an instance that \<open>connect\<close> has just created these are the last 100 messages that
  arrived, so the length is \<open>min 100 n\<close> after \<open>n\<close> messages and stays 100 from the
  100th on. A parseable message is appended, and when the history already has 100 entries
  the oldest one is removed; a frame that does not parse changes nothing.
\<close>

theorem bounded_history:
  assumes "s = wsRun parse events emptyManager" and "i < length (instances s)"
  shows "length (lastMessages (instances s ! i)) \<le> 100
    \<and> lastMessages (instances (wsRun parse later s) ! i) =
        drop (length (lastMessages (instances s ! i) @ arrived parse i later) - 100)
          (lastMessages (instances s ! i) @ arrived parse i later)
    \<and> length (lastMessages (instances (wsRun parse later s) ! i)) =
        min 100 (length (lastMessages (instances s ! i)) + length (arrived parse i later))
    \<and> (connections s u = None \<longrightarrow>
        lastMessages (instances (wsRun parse later (snd (connect u s)))
            ! length (instances s)) =
          drop (length (arrived parse (length (instances s)) later) - 100)
            (arrived parse (length (instances s)) later))
    \<and> (parse raw = Some d \<longrightarrow>
        lastMessages (instances (ws_onmessage parse i raw s) ! i) =
          (if length (lastMessages (instances s ! i)) < 100
           then lastMessages (instances s ! i) @ [d]
           else tl (lastMessages (instances s ! i)) @ [d]))
    \<and> (parse raw = None \<longrightarrow> ws_onmessage parse i raw s = s)"
proof -
  have inv: "wsInv s" unfolding assms(1) by (rule wsInv_run[OF wsInv_empty])
  have ok: "instOK (instances s ! i)"
    using inv assms(2) by (simp add: wsInv_def list_all_length)
  then have len: "length (lastMessages (instances s ! i)) \<le> 100"
    and lim: "maxMessages (instances s ! i) = 100"
    by (simp_all add: instOK_def)
  have run: "lastMessages (instances (wsRun parse later s) ! i) =
        drop (length (lastMessages (instances s ! i) @ arrived parse i later) - 100)
          (lastMessages (instances s ! i) @ arrived parse i later)"
    using history_run[OF assms(2) inv, of parse later] fold_pushMessage[OF len] by simp
  have runlen: "length (lastMessages (instances (wsRun parse later s) ! i)) =
        min 100 (length (lastMessages (instances s ! i)) + length (arrived parse i later))"
    unfolding run by auto
  have fresh: "connections s u = None \<longrightarrow>
        lastMessages (instances (wsRun parse later (snd (connect u s)))
            ! length (instances s)) =
          drop (length (arrived parse (length (instances s)) later) - 100)
            (arrived parse (length (instances s)) later)"
  proof
    assume none: "connections s u = None"
    let ?s = "snd (connect u s)"
    have new: "length (instances s) < length (instances ?s)"
      "lastMessages (instances ?s ! length (instances s)) = []"
      using none by (simp_all add: connect_def create_def Let_def newInstance_def)
    have inv': "wsInv ?s" using inv by (rule wsInv_connect)
    show "lastMessages (instances (wsRun parse later ?s) ! length (instances s)) =
          drop (length (arrived parse (length (instances s)) later) - 100)
            (arrived parse (length (instances s)) later)"
      using history_run[OF new(1) inv', of parse later] new(2)
        fold_pushMessage[of "[]" "arrived parse (length (instances s)) later"]
      by simp
  qed
  have one: "parse raw = Some d \<longrightarrow>
        lastMessages (instances (ws_onmessage parse i raw s) ! i) =
          (if length (lastMessages (instances s ! i)) < 100
           then lastMessages (instances s ! i) @ [d]
           else tl (lastMessages (instances s ! i)) @ [d])"
    using assms(2) lim pushMessage_step[OF len, of d]
    by (simp add: ws_onmessage_def Let_def nth_modify)
  have none: "parse raw = None \<longrightarrow> ws_onmessage parse i raw s = s"
    by (simp add: ws_onmessage_def)
  from len run runlen fresh one none show ?thesis by blast
qed

theorem bounded_history_witness:
  "(0::nat) < length (instances (wsRun Some [Connect ''ws://alarms''] emptyManager
        :: string WebSocketManager))
   \<and> lastMessages (instances (wsRun Some
        (OnMessage 0 ''first'' # replicate 100 (OnMessage 0 ''next''))
        (wsRun Some [Connect ''ws://alarms''] emptyManager)) ! 0) = replicate 100 ''next''
   \<and> lastMessages (instances (ws_onmessage Some 0 ''first''
        (wsRun Some [Connect ''ws://alarms''] emptyManager)) ! 0) = [''first'']
   \<and> length (lastMessages (instances (wsRun Some
        (OnMessage 0 ''first'' # replicate 100 (OnMessage 0 ''next''))
        (wsRun Some [Connect ''ws://alarms''] emptyManager)) ! 0)) = 100"
proof -
  have i: "(0::nat) < length (instances (wsRun Some [Connect ''ws://alarms''] emptyManager
        :: string WebSocketManager))"
    by (simp add: wsRun_def connect_def create_def emptyManager_def)
  have h: "lastMessages (instances (wsRun Some [Connect ''ws://alarms''] emptyManager
        :: string WebSocketManager) ! 0) = []"
    by (simp add: wsRun_def connect_def create_def emptyManager_def newInstance_def)
  have a: "arrived Some 0 (OnMessage 0 ''first'' # replicate 100 (OnMessage 0 ''next'')) =
      ''first'' # replicate 100 ''next''"
    by (simp add: arrived_def List.map_filter_def)
  show ?thesis
    using i h a bounded_history[OF refl i,
        of "OnMessage 0 ''first'' # replicate 100 (OnMessage 0 ''next'')" "''ws://other''"
          "''first''" "''first''"]
    by simp
qed






lemma connect_subscribers:
  "k < length (instances s) \<Longrightarrow>
   subscribers (instances (snd (connect u s)) ! k) = subscribers (instances s ! k)"
  using connect_store[of s u k] by simp





end
